theory Spec2Isabelle
  imports Main "HOL-Library.Sublist"
begin

section \<open>Python values and exceptions\<close>

text \<open>
  The module works on what \<open>json.loads\<close> returns: \<open>None\<close>, booleans, integers,
  strings, lists and dictionaries with string keys. One datatype holds them all; a tuple
  or a list that the code builds itself is a \<open>JArr\<close> too. A \<open>string\<close> stands for
  a Python \<open>str\<close> whose code points are below 256, numbers are integers, and the
  keys of a \<open>JObj\<close> are distinct, as \<open>json.loads\<close> leaves them.
\<close>

datatype json =
    JNull
  | JBool bool
  | JNum int
  | JStr string
  | JArr "json list"
  | JObj "(string \<times> json) list"

datatype error =
    AccessDenied
  | RetryAudioRequest
  | IndexError
  | KeyError
  | TypeError
  | AttributeError
  | ValueError
  | StopIteration
  | HTTPError
  | AuthError

text \<open>\<open>and_then\<close> runs the rest of a block unless the step before it raised.\<close>

definition and_then :: "error + 'a \<Rightarrow> ('a \<Rightarrow> error + 'b) \<Rightarrow> error + 'b" where
  "and_then r f = (case r of Inl e \<Rightarrow> Inl e | Inr x \<Rightarrow> f x)"

text \<open>\<open>bool(x)\<close>, as \<open>if x\<close>, \<open>not x\<close> and \<open>all\<close> apply it.\<close>

fun truthy :: "json \<Rightarrow> bool" where
  "truthy JNull = False"
| "truthy (JBool b) = b"
| "truthy (JNum n) = (n \<noteq> 0)"
| "truthy (JStr s) = (s \<noteq> [])"
| "truthy (JArr xs) = (xs \<noteq> [])"
| "truthy (JObj kvs) = (kvs \<noteq> [])"

text \<open>\<open>x[n]\<close> for an integer literal \<open>n \<ge> 0\<close>.\<close>

fun item_at :: "json \<Rightarrow> nat \<Rightarrow> error + json" where
  "item_at (JArr xs) n = (if n < length xs then Inr (xs ! n) else Inl IndexError)"
| "item_at (JStr s) n = (if n < length s then Inr (JStr [s ! n]) else Inl IndexError)"
| "item_at (JObj kvs) n = Inl KeyError"
| "item_at _ n = Inl TypeError"

text \<open>\<open>x['k']\<close> for a string literal.\<close>

fun item_of :: "json \<Rightarrow> string \<Rightarrow> error + json" where
  "item_of (JObj kvs) k = (case map_of kvs k of None \<Rightarrow> Inl KeyError | Some v \<Rightarrow> Inr v)"
| "item_of _ k = Inl TypeError"

text \<open>The elements that \<open>for x in v\<close> visits.\<close>

fun iterate :: "json \<Rightarrow> error + json list" where
  "iterate (JArr xs) = Inr xs"
| "iterate (JStr s) = Inr (map (\<lambda>c. JStr [c]) s)"
| "iterate (JObj kvs) = Inr (map (\<lambda>kv. JStr (fst kv)) kvs)"
| "iterate _ = Inl TypeError"

text \<open>\<open>'needle' in v\<close> for a string literal.\<close>

fun py_in :: "string \<Rightarrow> json \<Rightarrow> error + bool" where
  "py_in needle (JStr s) = Inr (sublist needle s)"
| "py_in needle (JArr xs) = Inr (JStr needle \<in> set xs)"
| "py_in needle (JObj kvs) = Inr (needle \<in> set (map fst kvs))"
| "py_in needle _ = Inl TypeError"

text \<open>\<open>sep.join(parts)\<close>: every part must be a \<open>str\<close>.\<close>

fun join :: "string \<Rightarrow> string list \<Rightarrow> string" where
  "join sep [] = []"
| "join sep [x] = x"
| "join sep (x # y # ys) = x @ sep @ join sep (y # ys)"

fun strings_of :: "json list \<Rightarrow> error + string list" where
  "strings_of [] = Inr []"
| "strings_of (JStr s # rest) = and_then (strings_of rest) (\<lambda>ss. Inr (s # ss))"
| "strings_of (_ # rest) = Inl TypeError"

definition py_join :: "string \<Rightarrow> json list \<Rightarrow> error + string" where
  "py_join sep parts = and_then (strings_of parts) (\<lambda>ss. Inr (join sep ss))"

text \<open>\<open>s.split(sep)\<close> for a separator of one character.\<close>

fun split :: "char \<Rightarrow> string \<Rightarrow> string list" where
  "split sep [] = [[]]"
| "split sep (c # cs) =
     (if c = sep then [] # split sep cs
      else (case split sep cs of [] \<Rightarrow> [[c]] | w # ws \<Rightarrow> (c # w) # ws))"

text \<open>\<open>s.strip()\<close>: the characters that \<open>str.isspace\<close> accepts, below 256.\<close>

definition isspace :: "char \<Rightarrow> bool" where
  "isspace c = (of_char c \<in> {9, 10, 11, 12, 13, 28, 29, 30, 31, 32, 133, 160 :: nat})"

definition strip :: "string \<Rightarrow> string" where
  "strip s = rev (dropWhile isspace (rev (dropWhile isspace s)))"

subsection \<open>str and repr\<close>

fun decimal :: "nat \<Rightarrow> string" where
  "decimal n =
     (if n < 10 then [char_of (48 + n)] else decimal (n div 10) @ [char_of (48 + n mod 10)])"

definition str_int :: "int \<Rightarrow> string" where
  "str_int i = (if i < 0 then CHR ''-'' # decimal (nat (- i)) else decimal (nat i))"

definition hex_digit :: "nat \<Rightarrow> char" where
  "hex_digit n = ''0123456789abcdef'' ! n"

definition repr_char :: "char \<Rightarrow> char \<Rightarrow> string" where
  "repr_char quote c =
     (let n = of_char c :: nat in
      if c = quote \<or> c = CHR 0x5C then [CHR 0x5C, c]
      else if n = 9 then [CHR 0x5C, CHR ''t'']
      else if n = 10 then [CHR 0x5C, CHR ''n'']
      else if n = 13 then [CHR 0x5C, CHR ''r'']
      else if n < 32 \<or> (127 \<le> n \<and> n \<le> 160) \<or> n = 173
        then [CHR 0x5C, CHR ''x'', hex_digit (n div 16), hex_digit (n mod 16)]
      else [c])"

definition repr_str :: "string \<Rightarrow> string" where
  "repr_str s =
     (let quote = (if CHR 0x27 \<in> set s \<and> CHR 0x22 \<notin> set s then CHR 0x22 else CHR 0x27)
      in quote # concat (map (repr_char quote) s) @ [quote])"

fun repr :: "json \<Rightarrow> string" where
  "repr JNull = ''None''"
| "repr (JBool b) = (if b then ''True'' else ''False'')"
| "repr (JNum n) = str_int n"
| "repr (JStr s) = repr_str s"
| "repr (JArr xs) = ''['' @ join '', '' (map repr xs) @ '']''"
| "repr (JObj kvs) =
     ''{'' @ join '', '' (map (\<lambda>kv. repr_str (fst kv) @ '': '' @ repr (snd kv)) kvs) @ ''}''"

fun str :: "json \<Rightarrow> string" where
  "str (JStr s) = s"
| "str v = repr v"


section \<open>scrap\_ids\<close>

text \<open>
  \<^verbatim>\<open>
  def scrap_ids(audio_data):
      ids = []
      for track in audio_data:
          full_id = str(track[1]), str(track[0]), track[24]
          if all(full_id):
              ids.append(full_id)
      return ids
  \<close>
  A full id is the tuple, as a list of its components.
\<close>

type_synonym full_id = "json list"

definition all_truthy :: "json list \<Rightarrow> bool" where
  "all_truthy vs = list_all truthy vs"

fun scrap_ids_loop :: "full_id list \<Rightarrow> json list \<Rightarrow> error + full_id list" where
  "scrap_ids_loop ids [] = Inr ids"
| "scrap_ids_loop ids (track # rest) =
     and_then (item_at track 1) (\<lambda>t1.
     and_then (item_at track 0) (\<lambda>t0.
     and_then (item_at track 24) (\<lambda>t24.
       let full_id = [JStr (str t1), JStr (str t0), t24] in
       if all_truthy full_id
       then scrap_ids_loop (ids @ [full_id]) rest
       else scrap_ids_loop ids rest)))"

definition scrap_ids :: "json \<Rightarrow> error + full_id list" where
  "scrap_ids audio_data = and_then (iterate audio_data) (scrap_ids_loop [])"


section \<open>base36encode\<close>

text \<open>
  \<^verbatim>\<open>
  def base36encode():
      number = int(time.time() * 1000)
      alphabet = '0123456789abcdefghijklmnopqrstuvwxyz'
      base36 = ''
      while number != 0:
          number, i = divmod(number, len(alphabet))
          base36 = alphabet[i] + base36
      return base36
  \<close>
  The clock reading \<open>int(time.time() * 1000)\<close> is the argument of the model. Python's
  \<open>divmod\<close> on integers rounds towards minus infinity, as \<open>div\<close> and \<open>mod\<close> on
  \<open>int\<close> do, so the remainder lies in \<open>0..35\<close> and \<open>alphabet[i]\<close> never
  raises. On a negative number the loop does not end (the quotient stays at \<open>-1\<close>):
  the loop is a partial function and not returning is \<open>None\<close>.
\<close>

definition alphabet :: string where
  "alphabet = ''0123456789abcdefghijklmnopqrstuvwxyz''"

partial_function (option) base36encode_loop :: "int \<Rightarrow> string \<Rightarrow> string option" where
  "base36encode_loop number base36 =
     (if number \<noteq> 0
      then base36encode_loop (number div int (length alphabet))
             ((alphabet ! nat (number mod int (length alphabet))) # base36)
      else Some base36)"

definition base36encode :: "int \<Rightarrow> string option" where
  "base36encode now_ms = base36encode_loop now_ms ''''"

text \<open>
  Reading a string as a base-36 numeral over the same alphabet, most significant digit
  first: the value of a digit is its position in the alphabet, and a character outside
  the alphabet makes the string no numeral at all.
\<close>

fun position_in :: "char \<Rightarrow> string \<Rightarrow> nat option" where
  "position_in c [] = None"
| "position_in c (x # xs) =
     (if x = c then Some 0 else map_option Suc (position_in c xs))"

fun base36_numeral_from :: "int \<Rightarrow> string \<Rightarrow> int option" where
  "base36_numeral_from v [] = Some v"
| "base36_numeral_from v (c # cs) =
     (case position_in c alphabet of
        None \<Rightarrow> None
      | Some d \<Rightarrow> base36_numeral_from (v * 36 + int d) cs)"

definition base36_numeral :: "string \<Rightarrow> int option" where
  "base36_numeral s = base36_numeral_from 0 s"


section \<open>The regular expression RE\_M3U8\_TO\_MP3\<close>

text \<open>
  \<^verbatim>\<open>
  RE_M3U8_TO_MP3 = re.compile(r'/[0-9a-f]+(/audios)?/([0-9a-f]+)/index.m3u8')
  ...
  link = RE_M3U8_TO_MP3.sub(r'\1/\2.mp3', link)
  \<close>
  The pattern is a term of the constructs it uses, and \<open>backtrack\<close> is a
  backtracking matcher in the way of Python's \<open>re\<close>: from an input and the groups
  captured so far it lists every way to match a prefix, as the rest of the input with
  the groups, in the order in which \<open>re\<close> tries them (a greedy repetition takes the longer
  match first, an optional part is tried before it is left out). The first entry is the
  match that \<open>re\<close> reports. A dot matches any character but a newline.
\<close>

datatype regex =
    Eps
  | Chr char
  | AnyChar
  | OneOf string
  | Cat regex regex
  | Plus regex
  | Opt regex
  | Group nat regex

type_synonym captures = "(nat \<times> string) list"

fun backtrack :: "regex \<Rightarrow> string \<times> captures \<Rightarrow> (string \<times> captures) list" where
  "backtrack Eps sg = [sg]"
| "backtrack (Chr c) (s, g) =
     (case s of [] \<Rightarrow> [] | x # xs \<Rightarrow> if x = c then [(xs, g)] else [])"
| "backtrack AnyChar (s, g) =
     (case s of [] \<Rightarrow> [] | x # xs \<Rightarrow> if x \<noteq> CHR 0x0A then [(xs, g)] else [])"
| "backtrack (OneOf cs) (s, g) =
     (case s of [] \<Rightarrow> [] | x # xs \<Rightarrow> if x \<in> set cs then [(xs, g)] else [])"
| "backtrack (Cat r1 r2) sg = concat (map (backtrack r2) (backtrack r1 sg))"
| "backtrack (Opt r) sg = backtrack r sg @ [sg]"
| "backtrack (Group n r) (s, g) =
     map (\<lambda>sg'. (fst sg', (n, take (length s - length (fst sg')) s) # snd sg'))
       (backtrack r (s, g))"
| "backtrack (Plus r) sg =
     concat (map (\<lambda>sg'. (if length (fst sg') < length (fst sg)
                           then backtrack (Plus r) sg' else []) @ [sg'])
               (backtrack r sg))"

definition match_at :: "regex \<Rightarrow> string \<Rightarrow> (string \<times> captures) option" where
  "match_at r s = (case backtrack r (s, []) of [] \<Rightarrow> None | m # _ \<Rightarrow> Some m)"

text \<open>
  A replacement template is text and group references; a group that took no part in the
  match expands to the empty string.
\<close>

datatype piece = Text string | Ref nat

fun expand :: "piece list \<Rightarrow> captures \<Rightarrow> string" where
  "expand [] g = []"
| "expand (Text t # ps) g = t @ expand ps g"
| "expand (Ref n # ps) g = (case map_of g n of None \<Rightarrow> [] | Some s \<Rightarrow> s) @ expand ps g"

text \<open>
  \<open>pattern.sub(template, s)\<close>: the leftmost match is replaced and the search goes
  on behind it; where nothing matches, the character is kept. A match of the empty
  string is not replaced here: the pattern at hand starts with a slash and has none.
\<close>

function sub :: "regex \<Rightarrow> piece list \<Rightarrow> string \<Rightarrow> string" where
  "sub r t [] = []"
| "sub r t (c # cs) =
     (case match_at r (c # cs) of
        None \<Rightarrow> c # sub r t cs
      | Some m \<Rightarrow>
          if length (fst m) < length (c # cs)
          then expand t (snd m) @ sub r t (fst m)
          else c # sub r t cs)"
  by pat_completeness auto
termination
  by (relation "measure (\<lambda>(r, t, s). length s)") auto

definition literal :: "string \<Rightarrow> regex" where
  "literal s = foldr (\<lambda>c r. Cat (Chr c) r) s Eps"

definition sequence :: "regex list \<Rightarrow> regex" where
  "sequence rs = foldr Cat rs Eps"

definition hex :: regex where
  "hex = OneOf ''0123456789abcdef''"

definition RE_M3U8_TO_MP3 :: regex where
  "RE_M3U8_TO_MP3 =
     sequence [Chr CHR ''/'', Plus hex, Opt (Group 1 (literal ''/audios'')), Chr CHR ''/'',
               Group 2 (Plus hex), literal ''/index'', AnyChar, literal ''m3u8'']"

definition m3u8_to_mp3 :: "string \<Rightarrow> string" where
  "m3u8_to_mp3 link = sub RE_M3U8_TO_MP3 [Ref 1, Text ''/'', Ref 2, Text ''.mp3''] link"


section \<open>The HTTP session\<close>

text \<open>
  The server is a script: the responses that the requests of a run receive, in order. A
  response is given as what the caller gets out of it: nothing (the request raises), a
  body that decodes as JSON (by \<open>json.loads\<close> after the \<open><!--\<close> marks are removed,
  or by \<open>.json()\<close>), or another body, as the HTML parser presents it. A request beyond
  the end of the script raises like a request that got no answer. Every request is
  recorded in \<open>sent\<close>. \<open>auths\<close> counts the calls of \<open>VkApi.auth\<close>.
\<close>

datatype audio_item = AudioItem (class_attr: "string list") (data_audio_attr: "error + json")

datatype page = NoRoot | Root "audio_item list"

datatype response = NoResponse | Json json | Html page

datatype request =
  Request (verb: string) (address: string) (params: "(string \<times> json) list")
    (form: "(string \<times> json) list")

record session =
  script :: "response list"
  sent :: "request list"
  auths :: nat

definition send :: "request \<Rightarrow> session \<Rightarrow> response \<times> session" where
  "send req s =
     (case script s of
        [] \<Rightarrow> (NoResponse, s\<lparr>sent := sent s @ [req]\<rparr>)
      | r # rs \<Rightarrow> (r, s\<lparr>script := rs, sent := sent s @ [req]\<rparr>))"

fun json_body :: "response \<Rightarrow> error + json" where
  "json_body NoResponse = Inl HTTPError"
| "json_body (Json v) = Inr v"
| "json_body (Html p) = Inl ValueError"

fun html_body :: "response \<Rightarrow> error + page" where
  "html_body NoResponse = Inl HTTPError"
| "html_body (Json v) = Inr NoRoot"
| "html_body (Html p) = Inr p"

text \<open>
  What the module calls and does not define: \<open>BeautifulSoup(x, 'html.parser').text\<close>,
  \<open>decode_audio_url\<close> of \<open>audio_url_decoder.py\<close>, and the outcome of the
  \<open>n\<close>-th call of \<open>VkApi.auth\<close> (\<open>None\<close> when it returns).
\<close>

record externals =
  bs_text :: "json \<Rightarrow> error + string"
  decode_audio_url :: "json \<Rightarrow> json \<Rightarrow> error + json"
  auth :: "nat \<Rightarrow> error option"


section \<open>scrap\_tracks\<close>

text \<open>
  \<^verbatim>\<open>
  def scrap_tracks(ids, user_id, http, convert_m3u8_links=True):
      last_request = 0.0

      for ids_group in [ids[i:i + 10] for i in range(0, len(ids), 10)]:
          delay = RPS_DELAY_RELOAD_AUDIO - (time.time() - last_request)
          if delay > 0:
              time.sleep(delay)

          response = http.post(
              'https://vk.com/al_audio.php',
              data={'al': 1, 'audio_ids': ','.join(['_'.join(i) for i in ids_group])},
              params={'act': 'reload_audios'},
          )
          result = json.loads(response.text.replace('<!--', ''))

          last_request = time.time()
          if result['payload']:
              data_audio = result['payload'][1][0]
              for audio in data_audio:
                  artist = BeautifulSoup(audio[4], 'html.parser').text
                  title = BeautifulSoup(audio[3].strip(), 'html.parser').text
                  duration = audio[5]
                  link = audio[2]

                  if 'audio_api_unavailable' in link:
                      link = decode_audio_url(link, user_id)

                  if convert_m3u8_links and 'm3u8' in link:
                      link = RE_M3U8_TO_MP3.sub(r'\1/\2.mp3', link)

                  yield {
                      'id': audio[0],
                      'owner_id': audio[1],
                      'track_covers': audio[14].split(',') if audio[14] else [],
                      'url': link,
                      'artist': artist,
                      'title': title,
                      'duration': duration,
                  }
  \<close>
  A generator is modelled by its run to the end: the values it yields, in order, how it
  ends (\<open>Inr ()\<close> when it returns, \<open>Inl e\<close> when \<open>e\<close> is raised in it) and the
  session it leaves. The clock is not part of the model: the delay changes when a request
  is sent, not which one.
\<close>

record track =
  track_id :: json
  track_owner_id :: json
  track_covers :: "string list"
  track_url :: json
  track_artist :: string
  track_title :: string
  track_duration :: json

type_synonym 'y run = "'y list \<times> (error + unit) \<times> session"

fun py_strip :: "json \<Rightarrow> error + string" where
  "py_strip (JStr s) = Inr (strip s)"
| "py_strip _ = Inl AttributeError"

fun py_split :: "char \<Rightarrow> json \<Rightarrow> error + string list" where
  "py_split sep (JStr s) = Inr (split sep s)"
| "py_split sep _ = Inl AttributeError"

fun re_sub :: "json \<Rightarrow> error + json" where
  "re_sub (JStr s) = Inr (JStr (m3u8_to_mp3 s))"
| "re_sub _ = Inl TypeError"

text \<open>The link of an audio entry, decoded where it is marked as unavailable.\<close>

definition audio_link :: "externals \<Rightarrow> json \<Rightarrow> json \<Rightarrow> error + json" where
  "audio_link ext user_id audio =
     and_then (item_at audio 2) (\<lambda>link.
     and_then (py_in ''audio_api_unavailable'' link) (\<lambda>unavailable.
       if unavailable then decode_audio_url ext link user_id else Inr link))"

text \<open>\<open>if convert_m3u8_links and 'm3u8' in link: link = RE_M3U8_TO_MP3.sub(...)\<close>\<close>

definition convert_link :: "bool \<Rightarrow> json \<Rightarrow> error + json" where
  "convert_link convert_m3u8_links link =
     (if convert_m3u8_links
      then and_then (py_in ''m3u8'' link) (\<lambda>m3u8. if m3u8 then re_sub link else Inr link)
      else Inr link)"

text \<open>The body of the loop over \<open>data_audio\<close>, up to the value it yields.\<close>

definition track_of_audio :: "externals \<Rightarrow> json \<Rightarrow> bool \<Rightarrow> json \<Rightarrow> error + track" where
  "track_of_audio ext user_id convert_m3u8_links audio =
     and_then (item_at audio 4) (\<lambda>a4.
     and_then (bs_text ext a4) (\<lambda>artist'.
     and_then (item_at audio 3) (\<lambda>a3.
     and_then (py_strip a3) (\<lambda>stripped.
     and_then (bs_text ext (JStr stripped)) (\<lambda>title'.
     and_then (item_at audio 5) (\<lambda>duration'.
     and_then (audio_link ext user_id audio) (\<lambda>link.
     and_then (convert_link convert_m3u8_links link) (\<lambda>link.
     and_then (item_at audio 0) (\<lambda>a0.
     and_then (item_at audio 1) (\<lambda>a1.
     and_then (item_at audio 14) (\<lambda>a14.
     and_then (if truthy a14 then py_split CHR '','' a14 else Inr []) (\<lambda>covers.
       Inr \<lparr>track_id = a0, track_owner_id = a1, track_covers = covers, track_url = link,
            track_artist = artist', track_title = title', track_duration = duration'\<rparr>))))))))))))"

fun yield_tracks :: "externals \<Rightarrow> json \<Rightarrow> bool \<Rightarrow> json list \<Rightarrow> track list \<times> (error + unit)" where
  "yield_tracks ext user_id convert [] = ([], Inr ())"
| "yield_tracks ext user_id convert (audio # rest) =
     (case track_of_audio ext user_id convert audio of
        Inl e \<Rightarrow> ([], Inl e)
      | Inr t \<Rightarrow>
          (case yield_tracks ext user_id convert rest of (ts, r) \<Rightarrow> (t # ts, r)))"

text \<open>\<open>[ids[i:i + 10] for i in range(0, len(ids), 10)]\<close>\<close>

definition ids_groups :: "full_id list \<Rightarrow> full_id list list" where
  "ids_groups ids =
     map (\<lambda>i. take 10 (drop i ids)) (filter (\<lambda>i. i mod 10 = 0) [0..<length ids])"

fun joined :: "string \<Rightarrow> full_id list \<Rightarrow> error + string list" where
  "joined sep [] = Inr []"
| "joined sep (i # rest) =
     and_then (py_join sep i) (\<lambda>x. and_then (joined sep rest) (\<lambda>xs. Inr (x # xs)))"

text \<open>\<open>','.join(['_'.join(i) for i in ids_group])\<close>\<close>

definition audio_ids :: "full_id list \<Rightarrow> error + string" where
  "audio_ids ids_group = and_then (joined ''_'' ids_group) (\<lambda>xs. Inr (join '','' xs))"

definition reload_audios :: "string \<Rightarrow> request" where
  "reload_audios ids =
     Request ''POST'' ''https://vk.com/al_audio.php'' [(''act'', JStr ''reload_audios'')]
       [(''al'', JNum 1), (''audio_ids'', JStr ids)]"

text \<open>The part of a group's turn from the decoded response to the last track of it.\<close>

definition tracks_of_result :: "externals \<Rightarrow> json \<Rightarrow> bool \<Rightarrow> json \<Rightarrow> track list \<times> (error + unit)" where
  "tracks_of_result ext user_id convert result =
     (case item_of result ''payload'' of
        Inl e \<Rightarrow> ([], Inl e)
      | Inr payload \<Rightarrow>
          if truthy payload
          then (case and_then (item_at payload 1) (\<lambda>p1.
                     and_then (item_at p1 0) iterate) of
                  Inl e \<Rightarrow> ([], Inl e)
                | Inr data_audio \<Rightarrow> yield_tracks ext user_id convert data_audio)
          else ([], Inr ()))"

fun scrap_tracks_groups ::
  "externals \<Rightarrow> json \<Rightarrow> bool \<Rightarrow> full_id list list \<Rightarrow> session \<Rightarrow> track run" where
  "scrap_tracks_groups ext user_id convert [] http = ([], Inr (), http)"
| "scrap_tracks_groups ext user_id convert (ids_group # groups) http =
     (case audio_ids ids_group of
        Inl e \<Rightarrow> ([], Inl e, http)
      | Inr ids \<Rightarrow>
          (case send (reload_audios ids) http of (response, http1) \<Rightarrow>
             (case json_body response of
                Inl e \<Rightarrow> ([], Inl e, http1)
              | Inr result \<Rightarrow>
                  (case tracks_of_result ext user_id convert result of
                     (ts, Inl e) \<Rightarrow> (ts, Inl e, http1)
                   | (ts, Inr _) \<Rightarrow>
                       (case scrap_tracks_groups ext user_id convert groups http1 of
                          (ts', r, http2) \<Rightarrow> (ts @ ts', r, http2))))))"

definition scrap_tracks ::
  "externals \<Rightarrow> full_id list \<Rightarrow> json \<Rightarrow> session \<Rightarrow> bool \<Rightarrow> track run" where
  "scrap_tracks ext ids user_id http convert_m3u8_links =
     scrap_tracks_groups ext user_id convert_m3u8_links (ids_groups ids) http"


section \<open>Example data\<close>

text \<open>
  A server for the examples: the HTML parser returns a string's text as it is, no link
  needs decoding and \<open>auth\<close> returns. An audio entry has its link at position 2, title
  and artist at 3 and 4, the duration at 5 and the covers at 14.
\<close>

definition example_externals :: externals where
  "example_externals =
     \<lparr>bs_text = (\<lambda>v. case v of JStr s \<Rightarrow> Inr s | _ \<Rightarrow> Inl TypeError),
      decode_audio_url = (\<lambda>link user_id. Inr link),
      auth = (\<lambda>n. None)\<rparr>"

definition example_id :: "int \<Rightarrow> full_id" where
  "example_id n = [JStr ''-1'', JStr (str_int n), JStr ''8a7f'']"

definition example_audio :: "int \<Rightarrow> json" where
  "example_audio n =
     JArr ([JNum n, JNum (-1), JStr ''https://vk.test/p1/0a1b/audios/c2d3/index.m3u8?e=1'',
            JStr '' Title '', JStr ''Artist'', JNum 200] @ replicate 8 JNull @ [JStr ''a.jpg,b.jpg''])"

definition example_track :: "int \<Rightarrow> track" where
  "example_track n =
     \<lparr>track_id = JNum n, track_owner_id = JNum (-1), track_covers = [''a.jpg'', ''b.jpg''],
      track_url = JStr ''https://vk.test/p1/audios/c2d3.mp3?e=1'', track_artist = ''Artist'',
      track_title = ''Title'', track_duration = JNum 200\<rparr>"

definition reloaded :: "int list \<Rightarrow> response" where
  "reloaded ns = Json (JObj [(''payload'', JArr [JNum 0, JArr [JArr (map example_audio ns)]])])"

definition server :: "response list \<Rightarrow> session" where
  "server responses = \<lparr>script = responses, sent = [], auths = 0\<rparr>"


section \<open>The VkAudio object and its requests\<close>

text \<open>
  Of the object, the methods read \<open>self.user_id\<close> and \<open>self.convert_m3u8_links\<close>;
  \<open>self._vk.http\<close> is the session, which every method takes and returns.
\<close>

record vk_audio =
  self_user_id :: json
  self_convert_m3u8_links :: bool

definition TRACKS_PER_USER_PAGE :: int where
  "TRACKS_PER_USER_PAGE = 2000"

definition TRACKS_PER_ALBUM_PAGE :: int where
  "TRACKS_PER_ALBUM_PAGE = 2000"

text \<open>\<open>http.post('https://vk.com/al_audio.php', data=data)\<close>\<close>

definition al_audio :: "(string \<times> json) list \<Rightarrow> request" where
  "al_audio data = Request ''POST'' ''https://vk.com/al_audio.php'' [] data"

definition load_catalog_section :: "json \<Rightarrow> json \<Rightarrow> request" where
  "load_catalog_section section_id start_from =
     al_audio [(''al'', JNum 1), (''act'', JStr ''load_catalog_section''),
               (''section_id'', section_id), (''start_from'', start_from)]"

definition load_section :: "json \<Rightarrow> json \<Rightarrow> json \<Rightarrow> int \<Rightarrow> request" where
  "load_section owner_id album_id access_hash offset =
     Request ''POST'' ''https://m.vk.com/audio'' []
       [(''act'', JStr ''load_section''), (''owner_id'', owner_id),
        (''playlist_id'', if truthy album_id then album_id else JNum (- 1)),
        (''offset'', JNum offset), (''type'', JStr ''playlist''),
        (''access_hash'', access_hash), (''is_loading_all'', JNum 1)]"

text \<open>A list comprehension \<open>[f(x) for x in xs]\<close> stops at the first exception.\<close>

fun comprehension :: "('a \<Rightarrow> error + 'b) \<Rightarrow> 'a list \<Rightarrow> error + 'b list" where
  "comprehension f [] = Inr []"
| "comprehension f (x # xs) =
     and_then (f x) (\<lambda>y. and_then (comprehension f xs) (\<lambda>ys. Inr (y # ys)))"

text \<open>\<open>json_data['payload'][1][1]\<close>\<close>

definition payload_1_1 :: "json \<Rightarrow> error + json" where
  "payload_1_1 json_data =
     and_then (item_of json_data ''payload'') (\<lambda>payload.
     and_then (item_at payload 1) (\<lambda>p1. item_at p1 1))"

text \<open>Sending never lengthens the script, and an answer shortens it.\<close>

lemma script_after_send:
  "send req http = (response, http1) \<Longrightarrow> length (script http1) \<le> length (script http)"
  by (auto simp: send_def split: list.splits)

lemma script_after_answer:
  "send req http = (response, http1) \<Longrightarrow> json_body response = Inr v \<Longrightarrow>
     length (script http1) < length (script http)"
  by (auto simp: send_def split: list.splits)

lemma script_after_scrap_tracks_groups:
  "scrap_tracks_groups ext user_id convert groups http = (tracks, r, http') \<Longrightarrow>
     length (script http') \<le> length (script http)"
proof (induction groups arbitrary: tracks r http http')
  case Nil
  then show ?case by simp
next
  case (Cons g groups)
  show ?case
  proof (cases "audio_ids g")
    case (Inl e)
    with Cons.prems show ?thesis by simp
  next
    case (Inr x)
    obtain response http1 where s: "send (reload_audios x) http = (response, http1)"
      by (cases "send (reload_audios x) http")
    note le = script_after_send [OF s]
    show ?thesis
    proof (cases "json_body response")
      case (Inl e)
      with Inr s Cons.prems le show ?thesis by auto
    next
      case result: (Inr result)
      obtain ts r1 where here: "tracks_of_result ext user_id convert result = (ts, r1)"
        by (cases "tracks_of_result ext user_id convert result")
      show ?thesis
      proof (cases r1)
        case (Inl e)
        with Inr s result here Cons.prems le show ?thesis by auto
      next
        case ok: (Inr u)
        obtain ts' r' h' where rest:
          "scrap_tracks_groups ext user_id convert groups http1 = (ts', r', h')"
          by (cases "scrap_tracks_groups ext user_id convert groups http1")
        with Inr s result here ok Cons.prems have "h' = http'"
          by auto
        with Cons.IH [OF rest] le show ?thesis
          by simp
      qed
    qed
  qed
qed

lemma script_after_scrap_tracks:
  "scrap_tracks ext ids user_id http convert = (tracks, r, http') \<Longrightarrow>
     length (script http') \<le> length (script http)"
  unfolding scrap_tracks_def by (rule script_after_scrap_tracks_groups)


section \<open>get\_iter\<close>

text \<open>
  \<^verbatim>\<open>
  def get_iter(self, owner_id=None, album_id=None, access_hash=None):
      if owner_id is None:
          owner_id = self.user_id

      if album_id is not None:
          offset_diff = TRACKS_PER_ALBUM_PAGE
      else:
          offset_diff = TRACKS_PER_USER_PAGE

      offset = 0
      while True:
          response = self._vk.http.post(
              'https://m.vk.com/audio',
              data={'act': 'load_section', 'owner_id': owner_id,
                    'playlist_id': album_id if album_id else -1, 'offset': offset,
                    'type': 'playlist', 'access_hash': access_hash, 'is_loading_all': 1},
              allow_redirects=False
          ).json()

          if not response['data'][0]:
              raise AccessDenied(...)

          ids = scrap_ids(response['data'][0]['list'])
          if not ids:
              break

          tracks = scrap_tracks(ids, self.user_id, self._vk.http,
                                convert_m3u8_links=self.convert_m3u8_links)
          for i in tracks:
              yield i

          if response['data'][0]['hasMore']:
              offset += offset_diff
          else:
              break
  \<close>
\<close>

function get_iter_loop ::
  "externals \<Rightarrow> vk_audio \<Rightarrow> json \<Rightarrow> json \<Rightarrow> json \<Rightarrow> int \<Rightarrow> int \<Rightarrow> session \<Rightarrow> track run" where
  "get_iter_loop ext self owner_id album_id access_hash offset_diff offset http =
     (case send (load_section owner_id album_id access_hash offset) http of
        (answer, http1) \<Rightarrow>
     (case json_body answer of
        Inl e \<Rightarrow> ([], Inl e, http1)
      | Inr response \<Rightarrow>
     (case and_then (item_of response ''data'') (\<lambda>data. item_at data 0) of
        Inl e \<Rightarrow> ([], Inl e, http1)
      | Inr data0 \<Rightarrow>
          if \<not> truthy data0 then ([], Inl AccessDenied, http1)
          else
     (case and_then (item_of data0 ''list'') scrap_ids of
        Inl e \<Rightarrow> ([], Inl e, http1)
      | Inr ids \<Rightarrow>
          if ids = [] then ([], Inr (), http1)
          else
     (case scrap_tracks ext ids (self_user_id self) http1 (self_convert_m3u8_links self) of
        (tracks, Inl e, http2) \<Rightarrow> (tracks, Inl e, http2)
      | (tracks, Inr _, http2) \<Rightarrow>
     (case item_of data0 ''hasMore'' of
        Inl e \<Rightarrow> (tracks, Inl e, http2)
      | Inr has_more \<Rightarrow>
          if truthy has_more
          then (case get_iter_loop ext self owner_id album_id access_hash offset_diff
                       (offset + offset_diff) http2 of
                  (later, r, http3) \<Rightarrow> (tracks @ later, r, http3))
          else (tracks, Inr (), http2)))))))"
  by pat_completeness auto
termination
proof (relation "measure (\<lambda>(ext, self, owner_id, album_id, access_hash, offset_diff, offset, http).
                   length (script http))", goal_cases)
  case 1
  show ?case by simp
next
  case (2 ext self owner_id album_id access_hash offset_diff offset http p answer http1)
  then show ?case
    using script_after_answer script_after_scrap_tracks
    by (fastforce simp: less_le_trans dest!: sym [of "(_, _)"])
qed

definition get_iter :: "externals \<Rightarrow> vk_audio \<Rightarrow> json \<Rightarrow> json \<Rightarrow> json \<Rightarrow> session \<Rightarrow> track run" where
  "get_iter ext self owner_id album_id access_hash http =
     get_iter_loop ext self (if owner_id = JNull then self_user_id self else owner_id)
       album_id access_hash
       (if album_id \<noteq> JNull then TRACKS_PER_ALBUM_PAGE else TRACKS_PER_USER_PAGE) 0 http"


section \<open>get\_updates\_iter\<close>

text \<open>
  \<^verbatim>\<open>
  def get_updates_iter(self):
      response = self._vk.http.post(
          'https://vk.com/al_audio.php',
          data={'al': 1, 'act': 'section', 'claim': 0, 'is_layer': 0,
                'owner_id': self.user_id, 'section': 'updates'}
      )
      json_response = json.loads(response.text.replace('<!--', ''))

      while True:
          updates = [i['list'] for i in json_response['payload'][1][1]['playlists']]

          ids = scrap_ids([i[0] for i in updates if i])
          if not ids:
              break

          tracks = scrap_tracks(ids, self.user_id,
                                convert_m3u8_links=self.convert_m3u8_links,
                                http=self._vk.http)
          for track in tracks:
              yield track

          if len(updates) < 11:
              break

          response = self._vk.http.post(
              'https://vk.com/al_audio.php',
              data={'al': 1, 'act': 'load_catalog_section',
                    'section_id': json_response['payload'][1][1]['sectionId'],
                    'start_from': json_response['payload'][1][1]['nextFrom']}
          )
          json_response = json.loads(response.text.replace('<!--', ''))
  \<close>
\<close>

text \<open>\<open>[i['list'] for i in json_response['payload'][1][1]['playlists']]\<close>\<close>

definition updates_of :: "json \<Rightarrow> error + json list" where
  "updates_of json_response =
     and_then (payload_1_1 json_response) (\<lambda>p11.
     and_then (item_of p11 ''playlists'') (\<lambda>playlists.
     and_then (iterate playlists) (comprehension (\<lambda>i. item_of i ''list''))))"

text \<open>\<open>scrap_ids([i[0] for i in updates if i])\<close>\<close>

definition updates_ids :: "json list \<Rightarrow> error + full_id list" where
  "updates_ids updates =
     and_then (comprehension (\<lambda>i. item_at i 0) (filter truthy updates)) (\<lambda>firsts.
       scrap_ids (JArr firsts))"

text \<open>The data of the request for the next page, its two subscripts in order.\<close>

definition next_updates_request :: "json \<Rightarrow> error + request" where
  "next_updates_request json_response =
     and_then (payload_1_1 json_response) (\<lambda>p11.
     and_then (item_of p11 ''sectionId'') (\<lambda>section_id.
     and_then (payload_1_1 json_response) (\<lambda>p11'.
     and_then (item_of p11' ''nextFrom'') (\<lambda>next_from.
       Inr (load_catalog_section section_id next_from)))))"

function get_updates_loop :: "externals \<Rightarrow> vk_audio \<Rightarrow> json \<Rightarrow> session \<Rightarrow> track run" where
  "get_updates_loop ext self json_response http =
     (case updates_of json_response of
        Inl e \<Rightarrow> ([], Inl e, http)
      | Inr updates \<Rightarrow>
     (case updates_ids updates of
        Inl e \<Rightarrow> ([], Inl e, http)
      | Inr ids \<Rightarrow>
          if ids = [] then ([], Inr (), http)
          else
     (case scrap_tracks ext ids (self_user_id self) http (self_convert_m3u8_links self) of
        (tracks, Inl e, http1) \<Rightarrow> (tracks, Inl e, http1)
      | (tracks, Inr _, http1) \<Rightarrow>
          if length updates < 11 then (tracks, Inr (), http1)
          else
     (case next_updates_request json_response of
        Inl e \<Rightarrow> (tracks, Inl e, http1)
      | Inr req \<Rightarrow>
     (case send req http1 of (answer, http2) \<Rightarrow>
     (case json_body answer of
        Inl e \<Rightarrow> (tracks, Inl e, http2)
      | Inr json_response' \<Rightarrow>
          (case get_updates_loop ext self json_response' http2 of
             (later, r, http3) \<Rightarrow> (tracks @ later, r, http3))))))))"
  by pat_completeness auto
termination
proof (relation "measure (\<lambda>(ext, self, json_response, http). length (script http))", goal_cases)
  case 1
  show ?case by simp
next
  case (2 ext self json_response http)
  then show ?case
    using script_after_answer script_after_scrap_tracks
    by (fastforce simp: less_le_trans dest!: sym [of "(_, _)"])
qed

definition updates_section :: "vk_audio \<Rightarrow> request" where
  "updates_section self =
     al_audio [(''al'', JNum 1), (''act'', JStr ''section''), (''claim'', JNum 0),
               (''is_layer'', JNum 0), (''owner_id'', self_user_id self),
               (''section'', JStr ''updates'')]"

definition get_updates_iter :: "externals \<Rightarrow> vk_audio \<Rightarrow> session \<Rightarrow> track run" where
  "get_updates_iter ext self http =
     (case send (updates_section self) http of (answer, http1) \<Rightarrow>
        (case json_body answer of
           Inl e \<Rightarrow> ([], Inl e, http1)
         | Inr json_response \<Rightarrow> get_updates_loop ext self json_response http1))"


section \<open>get\_target\_playlist\_from\_json\<close>

text \<open>
  \<^verbatim>\<open>
  def get_target_playlist_from_json(self, json_data, targets: Iterable[str]) -> dict | None:
      if type(json_data['payload'][1][1]) == str:
          self._vk.auth()
          raise RetryAudioRequest(...)

      try:
          playlists = json_data['payload'][1][1]['playlists']
      except Exception as e:
          self.logger.error(...)
          raise e
      target_playlist = next(
          (p for p in playlists if p['title'] in targets),
          None
      )
      if target_playlist is None:
          exists_lists = [p['title'] for p in playlists if p['list']]
          self.logger.warning(...)
      return target_playlist
  \<close>
  \<open>None\<close> is \<open>JNull\<close>. The log is not modelled, but what is computed for it is, since
  it can raise.
\<close>

fun is_str :: "json \<Rightarrow> bool" where
  "is_str (JStr s) = True"
| "is_str _ = False"

text \<open>\<open>next((p for p in playlists if p['title'] in targets), None)\<close>\<close>

fun first_target :: "string list \<Rightarrow> json list \<Rightarrow> error + json" where
  "first_target targets [] = Inr JNull"
| "first_target targets (p # ps) =
     and_then (item_of p ''title'') (\<lambda>title.
       if title \<in> set (map JStr targets) then Inr p else first_target targets ps)"

text \<open>\<open>[p['title'] for p in playlists if p['list']]\<close>\<close>

fun exists_lists :: "json list \<Rightarrow> error + json list" where
  "exists_lists [] = Inr []"
| "exists_lists (p # ps) =
     and_then (item_of p ''list'') (\<lambda>l.
       if truthy l
       then and_then (item_of p ''title'') (\<lambda>t.
            and_then (exists_lists ps) (\<lambda>ts. Inr (t # ts)))
       else exists_lists ps)"

definition target_playlist_of :: "json \<Rightarrow> string list \<Rightarrow> error + json" where
  "target_playlist_of json_data targets =
     and_then (payload_1_1 json_data) (\<lambda>p11.
     and_then (item_of p11 ''playlists'') (\<lambda>playlists.
     and_then (iterate playlists) (\<lambda>ps.
     and_then (first_target targets ps) (\<lambda>target_playlist.
       if target_playlist = JNull
       then and_then (exists_lists ps) (\<lambda>titles. Inr target_playlist)
       else Inr target_playlist))))"

definition get_target_playlist_from_json ::
  "externals \<Rightarrow> json \<Rightarrow> string list \<Rightarrow> session \<Rightarrow> (error + json) \<times> session" where
  "get_target_playlist_from_json ext json_data targets http =
     (case payload_1_1 json_data of
        Inl e \<Rightarrow> (Inl e, http)
      | Inr p11 \<Rightarrow>
          if is_str p11
          then (case auth ext (auths http) of
                  Some e \<Rightarrow> (Inl e, http\<lparr>auths := Suc (auths http)\<rparr>)
                | None \<Rightarrow> (Inl RetryAudioRequest, http\<lparr>auths := Suc (auths http)\<rparr>))
          else (target_playlist_of json_data targets, http))"

lemma script_after_get_target_playlist:
  "get_target_playlist_from_json ext json_data targets http = (r, http') \<Longrightarrow>
     script http' = script http"
  by (auto simp: get_target_playlist_from_json_def split: sum.splits if_splits option.splits)


section \<open>\_iter\_playlist\_by\_response\<close>

text \<open>
  \<^verbatim>\<open>
  def _iter_playlist_by_response(self, data, targets: Iterable[str], offset: int = 0):
      offset_left = 0

      def first_playlist():
          first_response = self._vk.http.post('https://vk.com/al_audio.php', data=data)
          first_json = json.loads(first_response.text.replace('<!--', ''))
          return self.get_target_playlist_from_json(first_json, targets=targets)

      try:
          playlist = first_playlist()
      except RetryAudioRequest:
          playlist = first_playlist()

      while playlist:
          ids = scrap_ids(playlist['list'])
          if not ids:
              break

          if offset_left + len(ids) >= offset:
              if offset_left < offset:
                  ids = ids[offset - offset_left:]

              tracks = scrap_tracks(ids, self.user_id,
                                    convert_m3u8_links=self.convert_m3u8_links,
                                    http=self._vk.http)
              for track in tracks:
                  yield track

          offset_left += len(ids)

          if not playlist['hasMore']:
              return

          response = self._vk.http.post(
              'https://vk.com/al_audio.php',
              data={'al': 1, 'act': 'load_catalog_section',
                    'section_id': playlist['id'],
                    'start_from': playlist['nextOffset']}
          )
          json_response = json.loads(response.text.replace('<!--', ''))
          # next part of playlist
          playlist = self.get_target_playlist_from_json(json_response, targets=targets)
  \<close>
\<close>

definition first_playlist ::
  "externals \<Rightarrow> (string \<times> json) list \<Rightarrow> string list \<Rightarrow> session \<Rightarrow> (error + json) \<times> session" where
  "first_playlist ext data targets http =
     (case send (al_audio data) http of (first_response, http1) \<Rightarrow>
        (case json_body first_response of
           Inl e \<Rightarrow> (Inl e, http1)
         | Inr first_json \<Rightarrow> get_target_playlist_from_json ext first_json targets http1))"

text \<open>
  The part of the loop body between \<open>if not ids: break\<close> and \<open>offset_left += len(ids)\<close>:
  the tracks it yields, and \<open>ids\<close> as the assignment in it leaves them.
\<close>

definition yield_from_offset ::
  "externals \<Rightarrow> vk_audio \<Rightarrow> int \<Rightarrow> int \<Rightarrow> full_id list \<Rightarrow> session \<Rightarrow> full_id list \<times> track run" where
  "yield_from_offset ext self offset offset_left ids http =
     (if offset_left + int (length ids) \<ge> offset
      then let ids = (if offset_left < offset then drop (nat (offset - offset_left)) ids else ids)
           in (ids, scrap_tracks ext ids (self_user_id self) http (self_convert_m3u8_links self))
      else (ids, ([], Inr (), http)))"

text \<open>The request for the next part of the playlist, its two subscripts in order.\<close>

definition next_part_request :: "json \<Rightarrow> error + request" where
  "next_part_request playlist =
     and_then (item_of playlist ''id'') (\<lambda>section_id.
     and_then (item_of playlist ''nextOffset'') (\<lambda>start_from.
       Inr (load_catalog_section section_id start_from)))"

function iter_playlist_loop ::
  "externals \<Rightarrow> vk_audio \<Rightarrow> string list \<Rightarrow> int \<Rightarrow> json \<Rightarrow> int \<Rightarrow> session \<Rightarrow> track run" where
  "iter_playlist_loop ext self targets offset playlist offset_left http =
     (if \<not> truthy playlist then ([], Inr (), http)
      else
     (case and_then (item_of playlist ''list'') scrap_ids of
        Inl e \<Rightarrow> ([], Inl e, http)
      | Inr ids \<Rightarrow>
          if ids = [] then ([], Inr (), http)
          else
     (case yield_from_offset ext self offset offset_left ids http of
        (ids, tracks, Inl e, http1) \<Rightarrow> (tracks, Inl e, http1)
      | (ids, tracks, Inr _, http1) \<Rightarrow>
     (case item_of playlist ''hasMore'' of
        Inl e \<Rightarrow> (tracks, Inl e, http1)
      | Inr has_more \<Rightarrow>
          if \<not> truthy has_more then (tracks, Inr (), http1)
          else
     (case next_part_request playlist of
        Inl e \<Rightarrow> (tracks, Inl e, http1)
      | Inr req \<Rightarrow>
     (case send req http1 of (response, http2) \<Rightarrow>
     (case json_body response of
        Inl e \<Rightarrow> (tracks, Inl e, http2)
      | Inr json_response \<Rightarrow>
     (case get_target_playlist_from_json ext json_response targets http2 of
        (Inl e, http3) \<Rightarrow> (tracks, Inl e, http3)
      | (Inr playlist', http3) \<Rightarrow>
          (case iter_playlist_loop ext self targets offset playlist'
                  (offset_left + int (length ids)) http3 of
             (later, r, http4) \<Rightarrow> (tracks @ later, r, http4))))))))))"
  by pat_completeness auto
termination
proof (relation "measure (\<lambda>(ext, self, targets, offset, playlist, offset_left, http).
                   length (script http))", goal_cases)
  case 1
  show ?case by simp
next
  case (2 ext self targets offset playlist offset_left http)
  then show ?case
    using script_after_answer script_after_scrap_tracks script_after_get_target_playlist
    by (fastforce simp: less_le_trans yield_from_offset_def Let_def
          split: if_splits dest!: sym [of "(_, _)"])
qed

definition iter_playlist_by_response ::
  "externals \<Rightarrow> vk_audio \<Rightarrow> (string \<times> json) list \<Rightarrow> string list \<Rightarrow> int \<Rightarrow> session \<Rightarrow> track run" where
  "iter_playlist_by_response ext self data targets offset http =
     (case first_playlist ext data targets http of
        (Inr playlist, http1) \<Rightarrow> iter_playlist_loop ext self targets offset playlist 0 http1
      | (Inl e, http1) \<Rightarrow>
          if e = RetryAudioRequest
          then (case first_playlist ext data targets http1 of
                  (Inr playlist, http2) \<Rightarrow>
                    iter_playlist_loop ext self targets offset playlist 0 http2
                | (Inl e', http2) \<Rightarrow> ([], Inl e', http2))
          else ([], Inl e, http1))"


section \<open>get\_audio\_by\_id\<close>

text \<open>
  \<^verbatim>\<open>
  def scrap_ids_from_html(html, filter_root_el=None):
      if filter_root_el is None:
          filter_root_el = {'id': 'au_search_items'}

      soup = BeautifulSoup(html, 'html.parser')
      ids = []

      root_el = soup.find(**filter_root_el)
      if root_el is None:
          raise ValueError('Could not find root el for audio')

      playlist_snippets = soup.find_all('div', {'class': "audioPlaylistSnippet__list"})
      for playlist in playlist_snippets:
          playlist.decompose()

      for audio in root_el.find_all('div', {'class': 'audio_item'}):
          if 'audio_item_disabled' in audio['class']:
              continue

          data_audio = json.loads(audio['data-audio'])
          audio_hashes = data_audio[13].split("/")

          full_id = (
              str(data_audio[1]), str(data_audio[0]), audio_hashes[2], audio_hashes[5]
          )
          if all(full_id):
              ids.append(full_id)

      return ids
  \<close>
  The page is given as the parser presents it for the caller's filter: \<open>NoRoot\<close>
  when \<open>soup.find\<close> returns \<open>None\<close>, else the \<open>audio_item\<close> divisions that
  \<open>root_el.find_all\<close> returns once the snippet lists are removed, each with its classes
  and with its \<open>data-audio\<close> attribute as \<open>json.loads\<close> decodes it (or as the exception
  that reading or decoding it raises).
\<close>

definition nth_string :: "string list \<Rightarrow> nat \<Rightarrow> error + string" where
  "nth_string xs n = (if n < length xs then Inr (xs ! n) else Inl IndexError)"

fun scrap_ids_from_html_loop :: "full_id list \<Rightarrow> audio_item list \<Rightarrow> error + full_id list" where
  "scrap_ids_from_html_loop ids [] = Inr ids"
| "scrap_ids_from_html_loop ids (audio # rest) =
     (if ''audio_item_disabled'' \<in> set (class_attr audio)
      then scrap_ids_from_html_loop ids rest
      else
        and_then (data_audio_attr audio) (\<lambda>data_audio.
        and_then (item_at data_audio 13) (\<lambda>d13.
        and_then (py_split CHR ''/'' d13) (\<lambda>audio_hashes.
        and_then (item_at data_audio 1) (\<lambda>d1.
        and_then (item_at data_audio 0) (\<lambda>d0.
        and_then (nth_string audio_hashes 2) (\<lambda>h2.
        and_then (nth_string audio_hashes 5) (\<lambda>h5.
          let full_id = [JStr (str d1), JStr (str d0), JStr h2, JStr h5] in
          if all_truthy full_id
          then scrap_ids_from_html_loop (ids @ [full_id]) rest
          else scrap_ids_from_html_loop ids rest))))))))"

fun scrap_ids_from_html :: "page \<Rightarrow> error + full_id list" where
  "scrap_ids_from_html NoRoot = Inl ValueError"
| "scrap_ids_from_html (Root audios) = scrap_ids_from_html_loop [] audios"

text \<open>
  \<^verbatim>\<open>
  def get_audio_by_id(self, owner_id, audio_id):
      response = self._vk.http.get(
          'https://m.vk.com/audio{}_{}'.format(owner_id, audio_id),
          allow_redirects=False
      )

      ids = scrap_ids_from_html(response.text, filter_root_el={'class': 'basisDefault'})

      track = scrap_tracks(ids, self.user_id, http=self._vk.http,
                           convert_m3u8_links=self.convert_m3u8_links)

      if track:
          return next(track)
      else:
          return []
  \<close>
  \<open>scrap_tracks\<close> is a generator function: the call returns a generator object, and the
  truth value of an object whose class defines neither \<open>__bool__\<close> nor \<open>__len__\<close> is
  true. \<open>next\<close> on a fresh generator returns the first value of its run; when the run
  has none it raises what the run ends with, \<open>StopIteration\<close> if it returns.
\<close>

datatype 'y generator = Generator "'y run"

fun bool_of_generator :: "'y generator \<Rightarrow> bool" where
  "bool_of_generator (Generator run) = True"

fun next_of :: "'y generator \<Rightarrow> error + 'y" where
  "next_of (Generator (y # ys, r, http)) = Inr y"
| "next_of (Generator ([], Inl e, http)) = Inl e"
| "next_of (Generator ([], Inr u, http)) = Inl StopIteration"

datatype returned = Returned_track track | Returned_empty_list

definition get_audio_by_id ::
  "externals \<Rightarrow> vk_audio \<Rightarrow> json \<Rightarrow> json \<Rightarrow> session \<Rightarrow> error + returned" where
  "get_audio_by_id ext self owner_id audio_id http =
     (case send (Request ''GET'' (''https://m.vk.com/audio'' @ str owner_id @ ''_'' @ str audio_id)
                   [] []) http of
        (response, http1) \<Rightarrow>
     (case and_then (html_body response) scrap_ids_from_html of
        Inl e \<Rightarrow> Inl e
      | Inr ids \<Rightarrow>
          let track = Generator (scrap_tracks ext ids (self_user_id self) http1
                                   (self_convert_m3u8_links self))
          in if bool_of_generator track
             then (case next_of track of Inl e \<Rightarrow> Inl e | Inr t \<Rightarrow> Inr (Returned_track t))
             else Inr Returned_empty_list))"


section \<open>Reading the requests of a run\<close>

text \<open>The \<open>act\<close> and the \<open>offset\<close> that a request carries in its data.\<close>

definition act_of :: "request \<Rightarrow> json option" where
  "act_of req = map_of (form req) ''act''"

definition is_load_section :: "request \<Rightarrow> bool" where
  "is_load_section req = (act_of req = Some (JStr ''load_section''))"

definition offset_of :: "request \<Rightarrow> json option" where
  "offset_of req = map_of (form req) ''offset''"


text \<open>
  The requests of a run with the answers they got: the entries of the script in order,
  and no answer once the script is used up.
\<close>

fun exchanges :: "request list \<Rightarrow> response list \<Rightarrow> (request \<times> response) list" where
  "exchanges [] answers = []"
| "exchanges (req # reqs) [] = (req, NoResponse) # exchanges reqs []"
| "exchanges (req # reqs) (answer # answers) = (req, answer) # exchanges reqs answers"

definition is_reload_audios :: "request \<Rightarrow> bool" where
  "is_reload_audios req = (map_of (params req) ''act'' = Some (JStr ''reload_audios''))"


section \<open>Example pages\<close>

definition example_self :: vk_audio where
  "example_self = \<lparr>self_user_id = JNum 7, self_convert_m3u8_links = True\<rparr>"

text \<open>A track array as \<open>scrap_ids\<close> reads it: id, owner, and the hash at position 24.\<close>

definition example_track_array :: "int \<Rightarrow> json" where
  "example_track_array n = JArr ([JNum n, JNum (- 1)] @ replicate 22 JNull @ [JStr ''8a7f''])"

definition section_data :: "int list \<Rightarrow> bool \<Rightarrow> json" where
  "section_data ns has_more =
     JObj [(''list'', JArr (map example_track_array ns)), (''hasMore'', JBool has_more)]"

definition section_page :: "int list \<Rightarrow> bool \<Rightarrow> json" where
  "section_page ns has_more = JObj [(''data'', JArr [section_data ns has_more])]"

definition denied_page :: json where
  "denied_page = JObj [(''data'', JArr [JBool False])]"


text \<open>A page of updates: one playlist for each number, holding one track.\<close>

definition updates_section_data :: "int list \<Rightarrow> json" where
  "updates_section_data ns =
     JObj [(''playlists'', JArr (map (\<lambda>n. JObj [(''list'', JArr [example_track_array n])]) ns)),
           (''sectionId'', JStr ''section''), (''nextFrom'', JStr ''next'')]"

definition updates_page :: "int list \<Rightarrow> json" where
  "updates_page ns = JObj [(''payload'', JArr [JNum 0, JArr [JStr ''html'', updates_section_data ns]])]"


text \<open>
  A page of a playlist named \<open>All\<close>, and an answer of the shape that makes
  \<open>get_target_playlist_from_json\<close> raise: its \<open>payload[1][1]\<close> is a string.
\<close>

definition playlist_data :: "int list \<Rightarrow> bool \<Rightarrow> json" where
  "playlist_data ns has_more =
     JObj [(''title'', JStr ''All''), (''list'', JArr (map example_track_array ns)),
           (''hasMore'', JBool has_more), (''id'', JStr ''block''), (''nextOffset'', JStr ''next'')]"

definition playlist_page :: "int list \<Rightarrow> bool \<Rightarrow> json" where
  "playlist_page ns has_more =
     JObj [(''payload'', JArr [JNum 0, JArr [JStr ''html'',
             JObj [(''playlists'', JArr [playlist_data ns has_more])]]])]"


definition search_data :: "(string \<times> json) list" where
  "search_data = [(''al'', JNum 1), (''act'', JStr ''section''), (''claim'', JNum 0),
                  (''is_layer'', JNum 0), (''owner_id'', JNum 7), (''section'', JStr ''search''),
                  (''q'', JStr ''song'')]"

text \<open>A page for \<open>get_audio_by_id\<close> with one audio item, and its \<open>data-audio\<close>.\<close>

definition example_data_audio :: "int \<Rightarrow> json" where
  "example_data_audio n =
     JArr ([JNum n, JNum (- 1)] @ replicate 11 JNull @ [JStr ''a/b/8a7f/c/d/9b6e'']) "

definition audio_page :: "int list \<Rightarrow> response" where
  "audio_page ns = Html (Root (map (\<lambda>n. AudioItem [''audio_item''] (Inr (example_data_audio n))) ns))"


section \<open>Properties of base36encode\<close>

lemma length_alphabet: "length alphabet = 36"
  by (simp add: alphabet_def)

lemma position_in_alphabet:
  "list_all (\<lambda>k. position_in (alphabet ! k) alphabet = Some k) [0..<36]"
  by code_simp

lemma position_of_digit:
  assumes "k < 36"
  shows "position_in (alphabet ! k) alphabet = Some k"
  using position_in_alphabet assms by (simp add: list_all_iff)

lemma base36_numeral_from_append:
  "base36_numeral_from v (s @ t) =
     (case base36_numeral_from v s of None \<Rightarrow> None | Some w \<Rightarrow> base36_numeral_from w t)"
  by (induction s arbitrary: v) (auto split: option.splits)

lemma base36encode_loop_numeral:
  assumes "0 \<le> n"
  shows "\<exists>s. base36encode_loop n acc = Some (s @ acc)
            \<and> base36_numeral_from 0 s = Some n \<and> (s = [] \<longleftrightarrow> n = 0)"
  using assms
proof (induction "nat n" arbitrary: n acc rule: less_induct)
  case less
  show ?case
  proof (cases "n = 0")
    case True
    then show ?thesis
      by (subst base36encode_loop.simps) simp
  next
    case False
    with less.prems have pos: "0 < n" by simp
    define d where "d = alphabet ! nat (n mod 36)"
    have smaller: "nat (n div 36) < nat n" and nonneg: "0 \<le> n div 36"
      using pos by (simp_all add: pos_imp_zdiv_nonneg_iff zdiv_mono2 nat_less_iff)
    from less.hyps [OF smaller nonneg, of "d # acc"]
    obtain s where s: "base36encode_loop (n div 36) (d # acc) = Some (s @ d # acc)"
      and v: "base36_numeral_from 0 s = Some (n div 36)"
      by blast
    have unfold: "base36encode_loop n acc = base36encode_loop (n div 36) (d # acc)"
      using False by (subst base36encode_loop.simps) (simp add: length_alphabet d_def)
    have "nat (n mod 36) < 36"
      using pos by simp
    then have digit: "position_in d alphabet = Some (nat (n mod 36))"
      unfolding d_def by (rule position_of_digit)
    have "base36_numeral_from 0 (s @ [d]) = Some (n div 36 * 36 + n mod 36)"
      using pos by (simp add: base36_numeral_from_append v digit)
    then have "base36_numeral_from 0 (s @ [d]) = Some n"
      by simp
    with s unfold False show ?thesis
      by (intro exI [of _ "s @ [d]"]) simp
  qed
qed

text \<open>
  C10. For every positive integer \<open>n\<close> the encoding loop of \<open>base36encode\<close> returns,
  and reading the returned string as a base-36 numeral over the alphabet
  \<open>0123456789abcdefghijklmnopqrstuvwxyz\<close> gives \<open>n\<close> back; for \<open>n = 0\<close> the
  loop returns the empty string.
\<close>

theorem base36encode_round_trip:
  "(0 < n \<longrightarrow> (\<exists>s. base36encode n = Some s \<and> base36_numeral s = Some n))
   \<and> base36encode 0 = Some ''''"
proof -
  have zero: "base36encode 0 = Some ''''"
    unfolding base36encode_def by (subst base36encode_loop.simps) simp
  have "\<exists>s. base36encode n = Some s \<and> base36_numeral s = Some n" if "0 < n"
  proof -
    from that have "0 \<le> n" by simp
    from base36encode_loop_numeral [OF this, of "''''"]
    show ?thesis
      by (auto simp: base36encode_def base36_numeral_def)
  qed
  with zero show ?thesis by blast
qed

theorem base36encode_round_trip_witness:
  "(0::int) < 1700000000000
   \<and> base36encode 1700000000000 = Some ''loyw3v28''
   \<and> base36_numeral ''loyw3v28'' = Some 1700000000000"
proof -
  have enc: "base36encode 1700000000000 = Some ''loyw3v28''"
    unfolding base36encode_def
    by (simp add: base36encode_loop.simps alphabet_def)
  from base36encode_round_trip [of 1700000000000] enc
  show ?thesis by simp
qed

section \<open>Properties of scrap\_ids\<close>

lemma and_then_simps [simp]:
  "and_then (Inl e) f = Inl e"
  "and_then (Inr x) f = f x"
  by (simp_all add: and_then_def)

lemma scrap_ids_loop_arrays:
  assumes "\<forall>fs \<in> set tracks. 25 \<le> length fs"
  shows "scrap_ids_loop ids (map JArr tracks) =
           Inr (ids @ filter all_truthy
                  (map (\<lambda>fs. [JStr (str (fs ! 1)), JStr (str (fs ! 0)), fs ! 24]) tracks))"
  using assms
proof (induction tracks arbitrary: ids)
  case Nil
  then show ?case by simp
next
  case (Cons fs tracks)
  from Cons.prems have "25 \<le> length fs"
    by simp
  then have len: "1 < length fs" "24 < length fs" "fs \<noteq> []"
    by auto
  with Cons show ?case
    by (simp add: Let_def)
qed

text \<open>
  C5. On a list of track arrays that have the positions 0, 1 and 24 (at least 25
  fields each), \<open>scrap_ids\<close> returns, in the order of the input, the triple
  \<open>(str(track[1]), str(track[0]), track[24])\<close> of exactly the tracks whose three
  components are all truthy, and skips the other tracks.
\<close>

theorem scrap_ids_fixed_positions:
  assumes "\<forall>fs \<in> set tracks. 25 \<le> length fs"
  shows "scrap_ids (JArr (map JArr tracks)) =
           Inr (filter all_truthy
                  (map (\<lambda>fs. [JStr (str (fs ! 1)), JStr (str (fs ! 0)), fs ! 24]) tracks))"
  using scrap_ids_loop_arrays [OF assms, of "[]"] by (simp add: scrap_ids_def)

theorem scrap_ids_fixed_positions_witness:
  "scrap_ids (JArr (map JArr
      [JNum 456 # JNum (-123) # replicate 22 JNull @ [JStr ''8a7f''],
       JNum 457 # JNum (-123) # replicate 22 JNull @ [JStr ''''],
       JNum 458 # JNum 9 # replicate 22 JNull @ [JStr ''c0de'', JBool True]]))
     = Inr [[JStr ''-123'', JStr ''456'', JStr ''8a7f''], [JStr ''9'', JStr ''458'', JStr ''c0de'']]"
proof -
  let ?tracks = "[JNum 456 # JNum (-123) # replicate 22 JNull @ [JStr ''8a7f''],
       JNum 457 # JNum (-123) # replicate 22 JNull @ [JStr ''''],
       JNum 458 # JNum 9 # replicate 22 JNull @ [JStr ''c0de'', JBool True]]"
  have long: "\<forall>fs \<in> set ?tracks. 25 \<le> length fs"
    by simp
  have "filter all_truthy
          (map (\<lambda>fs. [JStr (str (fs ! 1)), JStr (str (fs ! 0)), fs ! 24]) ?tracks)
        = [[JStr ''-123'', JStr ''456'', JStr ''8a7f''], [JStr ''9'', JStr ''458'', JStr ''c0de'']]"
    by code_simp
  with scrap_ids_fixed_positions [OF long] show ?thesis
    by (simp only:)
qed

section \<open>Properties of scrap\_tracks\<close>

subsection \<open>The groups of ten\<close>

lemma ceil_div_10_step:
  fixes n :: nat
  shows ceil_div_10_Suc_exact: "n mod 10 = 0 \<Longrightarrow> (Suc n + 9) div 10 = Suc ((n + 9) div 10)"
    and ceil_div_10_Suc_other: "n mod 10 \<noteq> 0 \<Longrightarrow> (Suc n + 9) div 10 = (n + 9) div 10"
    and ceil_div_10_exact: "n mod 10 = 0 \<Longrightarrow> 10 * ((n + 9) div 10) = n"
proof -
  define q r where "q = n div 10" and "r = n mod 10"
  have n: "n = q * 10 + r" and r: "r < 10"
    by (simp_all add: q_def r_def)
  have up: "(Suc n + 9) div 10 = Suc q"
  proof -
    have "Suc n + 9 = (q + 1) * 10 + r"
      by (simp add: n)
    then show ?thesis
      using r by simp
  qed
  have exact: "(n + 9) div 10 = q" if "r = 0"
  proof -
    from that have "n + 9 = q * 10 + 9" by (simp add: n)
    then show ?thesis by simp
  qed
  have other: "(n + 9) div 10 = Suc q" if "r \<noteq> 0"
  proof -
    from that obtain r' where r': "r = Suc r'" by (cases r) auto
    have "n + 9 = (q + 1) * 10 + r'" by (simp add: n r')
    then show ?thesis using r r' by simp
  qed
  show "(Suc n + 9) div 10 = Suc ((n + 9) div 10)" if "n mod 10 = 0"
  proof -
    from that have "r = 0" by (simp add: r_def)
    with exact up show ?thesis by simp
  qed
  show "(Suc n + 9) div 10 = (n + 9) div 10" if "n mod 10 \<noteq> 0"
  proof -
    from that have "r \<noteq> 0" by (simp add: r_def)
    with other up show ?thesis by simp
  qed
  show "10 * ((n + 9) div 10) = n" if "n mod 10 = 0"
  proof -
    from that have "r = 0" by (simp add: r_def)
    with exact n show ?thesis by simp
  qed
qed

lemma ceil_div_10_lower: "(n::nat) \<le> 10 * ((n + 9) div 10)"
  and ceil_div_10_upper: "10 * ((n + 9) div 10) \<le> n + 9"
proof -
  define d m where "d = (n + 9) div 10" and "m = (n + 9) mod 10"
  have "10 * d + m = n + 9" and "m < 10"
    by (simp_all add: d_def m_def)
  then show "n \<le> 10 * ((n + 9) div 10)" and "10 * ((n + 9) div 10) \<le> n + 9"
    unfolding d_def [symmetric] by linarith+
qed

lemma range_step_10:
  "filter (\<lambda>i. i mod 10 = 0) [0..<n] = map (\<lambda>k. 10 * k) [0..<(n + 9) div 10]"
proof (induction n)
  case 0
  then show ?case by simp
next
  case (Suc n)
  define m where "m = (n + 9) div 10"
  show ?case
  proof (cases "n mod 10 = 0")
    case True
    then have left: "filter (\<lambda>i. i mod 10 = 0) [0..<Suc n] = filter (\<lambda>i. i mod 10 = 0) [0..<n] @ [n]"
      by simp
    from True have "(Suc n + 9) div 10 = Suc m"
      unfolding m_def by (rule ceil_div_10_Suc_exact)
    moreover have "map (\<lambda>k. 10 * k) [0..<Suc m] = map (\<lambda>k. 10 * k) [0..<m] @ [10 * m]"
      by simp
    moreover have "10 * m = n"
      unfolding m_def using True by (rule ceil_div_10_exact)
    ultimately show ?thesis
      using Suc.IH by (simp only: left m_def)
  next
    case False
    then have left: "filter (\<lambda>i. i mod 10 = 0) [0..<Suc n] = filter (\<lambda>i. i mod 10 = 0) [0..<n]"
      by simp
    from False have "(Suc n + 9) div 10 = m"
      unfolding m_def by (rule ceil_div_10_Suc_other)
    then show ?thesis
      using Suc.IH by (simp only: left m_def)
  qed
qed

lemma ids_groups_eq:
  "ids_groups ids = map (\<lambda>k. take 10 (drop (10 * k) ids)) [0..<(length ids + 9) div 10]"
  by (simp only: ids_groups_def range_step_10 map_map comp_def)

lemma concat_slices:
  "concat (map (\<lambda>k. take 10 (drop (10 * k) xs)) [0..<m]) = take (10 * m) xs"
proof (induction m)
  case 0
  then show ?case by simp
next
  case (Suc m)
  have "take (10 * m) xs @ take 10 (drop (10 * m) xs) = take (10 * m + 10) xs"
    by (simp add: take_add)
  with Suc show ?case by (simp add: add.commute)
qed

lemma concat_ids_groups: "concat (ids_groups ids) = ids"
  using ceil_div_10_lower [of "length ids"]
  by (simp only: ids_groups_eq concat_slices take_all)

lemma length_ids_groups: "length (ids_groups ids) = (length ids + 9) div 10"
  by (simp only: ids_groups_eq length_map length_upt diff_zero)

lemma ids_groups_at_most_10: "g \<in> set (ids_groups ids) \<Longrightarrow> length g \<le> 10"
  unfolding ids_groups_eq by auto

lemma butlast_upto: "butlast [0..<m] = [0..<m - 1]"
  by (cases m) simp_all

lemma ids_groups_full:
  assumes "g \<in> set (butlast (ids_groups ids))"
  shows "length g = 10"
proof -
  define m where "m = (length ids + 9) div 10"
  have "butlast (ids_groups ids) = map (\<lambda>k. take 10 (drop (10 * k) ids)) [0..<m - 1]"
    by (simp only: ids_groups_eq map_butlast [symmetric] butlast_upto m_def)
  with assms obtain k where k: "k < m - 1" and g: "g = take 10 (drop (10 * k) ids)"
    by auto
  from ceil_div_10_upper [of "length ids"] have "10 * m \<le> length ids + 9"
    by (simp only: m_def)
  with k have "10 * k + 10 \<le> length ids"
    by linarith
  with g show ?thesis by simp
qed

subsection \<open>The requests of a run\<close>

lemma sent_send: "send req http = (r, http1) \<Longrightarrow> sent http1 = sent http @ [req]"
  by (auto simp: send_def split: list.splits)

lemma script_send:
  "send req http = (r, http1) \<Longrightarrow> length (script http1) \<le> length (script http)"
  by (auto simp: send_def split: list.splits)

lemma exchanges_append:
  "exchanges (xs @ ys) answers = exchanges xs answers @ exchanges ys (drop (length xs) answers)"
proof (induction xs arbitrary: answers)
  case Nil
  show ?case by simp
next
  case (Cons x xs)
  show ?case by (cases answers) (simp_all add: Cons.IH)
qed

lemma exchanges_reloads:
  "\<forall>q \<in> set reqs. is_reload_audios q \<Longrightarrow>
     filter (\<lambda>x. \<not> is_reload_audios (fst x)) (exchanges reqs answers) = []"
  by (induction reqs answers rule: exchanges.induct) simp_all

lemma send_exchange:
  assumes "send req http = (answer, http1)"
  shows "sent http1 = sent http @ [req]" and "script http1 = drop 1 (script http)"
    and "exchanges [req] (script http) = [(req, answer)]"
  using assms by (auto simp: send_def split: list.splits)

lemma scrap_tracks_groups_script:
  assumes "scrap_tracks_groups ext user_id convert groups http = (tracks, r, http')"
  shows "\<exists>reqs. sent http' = sent http @ reqs \<and> script http' = drop (length reqs) (script http)
           \<and> (\<forall>q \<in> set reqs. is_reload_audios q)"
  using assms
proof (induction groups arbitrary: tracks r http http')
  case Nil
  then show ?case by simp
next
  case (Cons g groups)
  show ?case
  proof (cases "audio_ids g")
    case (Inl e)
    with Cons.prems show ?thesis by simp
  next
    case (Inr x)
    obtain response http1 where s: "send (reload_audios x) http = (response, http1)"
      by (cases "send (reload_audios x) http")
    note one = send_exchange(1,2) [OF s]
    have reload: "is_reload_audios (reload_audios x)"
      by (simp add: is_reload_audios_def reload_audios_def)
    have here: "\<exists>reqs. sent http1 = sent http @ reqs
                  \<and> script http1 = drop (length reqs) (script http)
                  \<and> (\<forall>q \<in> set reqs. is_reload_audios q)"
      using one reload by (intro exI [of _ "[reload_audios x]"]) simp
    show ?thesis
    proof (cases "json_body response")
      case (Inl e)
      with Inr s Cons.prems have "http' = http1" by auto
      with here show ?thesis by simp
    next
      case result: (Inr result)
      obtain ts r1 where page: "tracks_of_result ext user_id convert result = (ts, r1)"
        by (cases "tracks_of_result ext user_id convert result")
      show ?thesis
      proof (cases r1)
        case (Inl e)
        with Inr s result page Cons.prems have "http' = http1" by auto
        with here show ?thesis by simp
      next
        case ok: (Inr u)
        obtain ts' r' h' where rest:
          "scrap_tracks_groups ext user_id convert groups http1 = (ts', r', h')"
          by (cases "scrap_tracks_groups ext user_id convert groups http1")
        with Inr s result page ok Cons.prems have "h' = http'"
          by auto
        with Cons.IH [OF rest] obtain reqs where "sent http' = sent http1 @ reqs"
          "script http' = drop (length reqs) (script http1)" "\<forall>q \<in> set reqs. is_reload_audios q"
          by blast
        with one reload show ?thesis
          by (intro exI [of _ "reload_audios x # reqs"]) (simp add: drop_Suc drop_tl)
      qed
    qed
  qed
qed

lemma scrap_tracks_script:
  assumes "scrap_tracks ext ids user_id http convert = (tracks, r, http')"
  shows "\<exists>reqs. sent http' = sent http @ reqs \<and> script http' = drop (length reqs) (script http)
           \<and> (\<forall>q \<in> set reqs. is_reload_audios q)"
  using assms unfolding scrap_tracks_def by (rule scrap_tracks_groups_script)

lemma comprehension_length: "comprehension f xs = Inr ys \<Longrightarrow> length ys = length xs"
proof (induction xs arbitrary: ys)
  case Nil
  then show ?case by simp
next
  case (Cons x xs)
  then show ?case
    by (auto simp: and_then_def split: sum.splits)
qed

subsection \<open>The link of a yielded track\<close>

lemma and_then_Inr:
  "and_then r f = Inr y \<longleftrightarrow> (\<exists>x. r = Inr x \<and> f x = Inr y)"
  by (cases r) simp_all







subsection \<open>What the requests carry\<close>

lemma strings_of_Inr:
  "strings_of vs = Inr ss \<Longrightarrow> vs = map JStr ss"
proof (induction vs arbitrary: ss)
  case Nil
  then show ?case by simp
next
  case (Cons v vs)
  then show ?case
    by (cases v) (auto simp: and_then_Inr)
qed

lemma joined_Inr:
  "joined sep g = Inr xs \<Longrightarrow> \<exists>parts. g = map (map JStr) parts \<and> xs = map (join sep) parts"
proof (induction g arbitrary: xs)
  case Nil
  then show ?case by simp
next
  case (Cons i g)
  from Cons.prems obtain ss xs' where i: "strings_of i = Inr ss"
    and g: "joined sep g = Inr xs'" and xs: "xs = join sep ss # xs'"
    by (auto simp: and_then_Inr py_join_def)
  from Cons.IH [OF g] obtain parts where "g = map (map JStr) parts" "xs' = map (join sep) parts"
    by blast
  with strings_of_Inr [OF i] xs show ?case
    by (intro exI [of _ "ss # parts"]) simp
qed

lemma audio_ids_Inr:
  assumes "audio_ids g = Inr x"
  shows "\<exists>parts. g = map (map JStr) parts \<and> x = join '','' (map (join ''_'') parts)"
  using assms joined_Inr [of "''_''" g] by (auto simp: audio_ids_def and_then_Inr)

lemma scrap_tracks_groups_carried:
  assumes "scrap_tracks_groups ext user_id convert groups http = (tracks, r, http')"
  shows "\<exists>reqs. sent http' = sent http @ reqs \<and> length reqs \<le> length groups
           \<and> (r = Inr () \<longrightarrow> length reqs = length groups)
           \<and> list_all2
                (\<lambda>g req. \<exists>parts. g = map (map JStr) parts
                    \<and> req = Request ''POST'' ''https://vk.com/al_audio.php''
                              [(''act'', JStr ''reload_audios'')]
                              [(''al'', JNum 1),
                               (''audio_ids'', JStr (join '','' (map (join ''_'') parts)))])
                (take (length reqs) groups) reqs"
  using assms
proof (induction groups arbitrary: tracks r http http')
  case Nil
  then show ?case by simp
next
  case (Cons g groups)
  show ?case
  proof (cases "audio_ids g")
    case (Inl e)
    with Cons.prems show ?thesis by auto
  next
    case (Inr x)
    from audio_ids_Inr [OF Inr] obtain parts where parts: "g = map (map JStr) parts"
      "x = join '','' (map (join ''_'') parts)"
      by blast
    obtain response http1 where s: "send (reload_audios x) http = (response, http1)"
      by (cases "send (reload_audios x) http")
    note one = sent_send [OF s]
    have first: "\<exists>parts. g = map (map JStr) parts
                   \<and> reload_audios x = Request ''POST'' ''https://vk.com/al_audio.php''
                              [(''act'', JStr ''reload_audios'')]
                              [(''al'', JNum 1),
                               (''audio_ids'', JStr (join '','' (map (join ''_'') parts)))]"
      using parts by (auto simp: reload_audios_def)
    have alone: ?thesis if "http' = http1" "r \<noteq> Inr ()"
      using that one first by (intro exI [of _ "[reload_audios x]"]) simp
    show ?thesis
    proof (cases "json_body response")
      case (Inl e)
      with Inr s Cons.prems show ?thesis by (intro alone) auto
    next
      case result: (Inr result)
      obtain ts r1 where here: "tracks_of_result ext user_id convert result = (ts, r1)"
        by (cases "tracks_of_result ext user_id convert result")
      show ?thesis
      proof (cases r1)
        case (Inl e)
        with Inr s result here Cons.prems show ?thesis by (intro alone) auto
      next
        case ok: (Inr u)
        obtain ts' r' h' where rest:
          "scrap_tracks_groups ext user_id convert groups http1 = (ts', r', h')"
          by (cases "scrap_tracks_groups ext user_id convert groups http1")
        with Inr s result here ok Cons.prems have same: "h' = http'" "r' = r"
          by auto
        from Cons.IH [OF rest] obtain reqs where reqs: "sent h' = sent http1 @ reqs"
          "length reqs \<le> length groups" "r' = Inr () \<longrightarrow> length reqs = length groups"
          "list_all2
             (\<lambda>g req. \<exists>parts. g = map (map JStr) parts
                 \<and> req = Request ''POST'' ''https://vk.com/al_audio.php''
                           [(''act'', JStr ''reload_audios'')]
                           [(''al'', JNum 1),
                            (''audio_ids'', JStr (join '','' (map (join ''_'') parts)))])
             (take (length reqs) groups) reqs"
          by blast
        with one first same show ?thesis
          by (intro exI [of _ "reload_audios x # reqs"]) simp
      qed
    qed
  qed
qed

text \<open>
  C8, as amended. For every list of \<open>n\<close> ids the groups are consecutive pieces of it, in
  order: they concatenate to the list, there are \<open>ceil(n / 10)\<close> of them, each has at most
  10 ids and each but the last exactly 10. The requests of a run are \<open>reload_audios\<close>
  requests for the first groups, one each and in order, whose \<open>audio_ids\<close> is the group's
  ids, the components of an id joined by \<open>_\<close> and the ids by commas. A run that ends
  without an exception has sent one for every group, \<open>ceil(n / 10)\<close> in all; a run that
  raises has sent no more than that.
\<close>

theorem scrap_tracks_requests:
  assumes "scrap_tracks ext ids user_id http convert = (tracks, r, http')"
  shows "concat (ids_groups ids) = ids
       \<and> length (ids_groups ids) = (length ids + 9) div 10
       \<and> (\<forall>g \<in> set (ids_groups ids). length g \<le> 10)
       \<and> (\<forall>g \<in> set (butlast (ids_groups ids)). length g = 10)
       \<and> (\<exists>reqs. sent http' = sent http @ reqs
              \<and> length reqs \<le> (length ids + 9) div 10
              \<and> (r = Inr () \<longrightarrow> length reqs = (length ids + 9) div 10)
              \<and> list_all2
                   (\<lambda>g req. \<exists>parts. g = map (map JStr) parts
                       \<and> req = Request ''POST'' ''https://vk.com/al_audio.php''
                                 [(''act'', JStr ''reload_audios'')]
                                 [(''al'', JNum 1),
                                  (''audio_ids'', JStr (join '','' (map (join ''_'') parts)))])
                   (take (length reqs) (ids_groups ids)) reqs)"
proof -
  from assms have "scrap_tracks_groups ext user_id convert (ids_groups ids) http = (tracks, r, http')"
    by (simp only: scrap_tracks_def)
  from scrap_tracks_groups_carried [OF this]
  have "\<exists>reqs. sent http' = sent http @ reqs
              \<and> length reqs \<le> (length ids + 9) div 10
              \<and> (r = Inr () \<longrightarrow> length reqs = (length ids + 9) div 10)
              \<and> list_all2
                   (\<lambda>g req. \<exists>parts. g = map (map JStr) parts
                       \<and> req = Request ''POST'' ''https://vk.com/al_audio.php''
                                 [(''act'', JStr ''reload_audios'')]
                                 [(''al'', JNum 1),
                                  (''audio_ids'', JStr (join '','' (map (join ''_'') parts)))])
                   (take (length reqs) (ids_groups ids)) reqs"
    by (simp only: length_ids_groups)
  then show ?thesis
    using concat_ids_groups length_ids_groups ids_groups_at_most_10 ids_groups_full by blast
qed

theorem scrap_tracks_requests_witness:
  "scrap_tracks example_externals (map example_id [1..12]) (JNum 7)
     (server [reloaded [1, 2], reloaded []]) True
   = ([example_track 1, example_track 2], Inr (),
      \<lparr>script = [],
        sent = [Request ''POST'' ''https://vk.com/al_audio.php'' [(''act'', JStr ''reload_audios'')]
                  [(''al'', JNum 1),
                   (''audio_ids'', JStr (''-1_1_8a7f,-1_2_8a7f,-1_3_8a7f,-1_4_8a7f,-1_5_8a7f,''
                                         @ ''-1_6_8a7f,-1_7_8a7f,-1_8_8a7f,-1_9_8a7f,-1_10_8a7f''))],
                Request ''POST'' ''https://vk.com/al_audio.php'' [(''act'', JStr ''reload_audios'')]
                  [(''al'', JNum 1), (''audio_ids'', JStr ''-1_11_8a7f,-1_12_8a7f'')]],
        auths = 0\<rparr>)
   \<and> length (sent (snd (snd (scrap_tracks example_externals (map example_id [1..12]) (JNum 7)
                 (server [reloaded [1, 2], reloaded []]) True))))
       = (length (map example_id [1..12]) + 9) div 10"
proof -
  let ?run = "scrap_tracks example_externals (map example_id [1..12]) (JNum 7)
                (server [reloaded [1, 2], reloaded []]) True"
  let ?end = "\<lparr>script = [],
        sent = [Request ''POST'' ''https://vk.com/al_audio.php'' [(''act'', JStr ''reload_audios'')]
                  [(''al'', JNum 1),
                   (''audio_ids'', JStr (''-1_1_8a7f,-1_2_8a7f,-1_3_8a7f,-1_4_8a7f,-1_5_8a7f,''
                                         @ ''-1_6_8a7f,-1_7_8a7f,-1_8_8a7f,-1_9_8a7f,-1_10_8a7f''))],
                Request ''POST'' ''https://vk.com/al_audio.php'' [(''act'', JStr ''reload_audios'')]
                  [(''al'', JNum 1), (''audio_ids'', JStr ''-1_11_8a7f,-1_12_8a7f'')]],
        auths = 0\<rparr>"
  have run: "?run = ([example_track 1, example_track 2], Inr (), ?end)"
    by code_simp
  from scrap_tracks_requests [OF run] obtain reqs
    where "sent ?end = sent (server [reloaded [1, 2], reloaded []]) @ reqs"
      and "length reqs = (length (map example_id [1..12]) + 9) div 10"
    by (elim conjE exE) simp
  then have "length (sent ?end) = (length (map example_id [1..12]) + 9) div 10"
    by (simp add: server_def)
  with run show ?thesis
    by (simp only:) simp
qed

theorem scrap_tracks_batching_counterexample:
  "scrap_tracks example_externals (map example_id [1..11]) (JNum 7) (server [Json (JObj [])]) True
     = ([], Inl KeyError,
        \<lparr>script = [],
          sent = [Request ''POST'' ''https://vk.com/al_audio.php'' [(''act'', JStr ''reload_audios'')]
                    [(''al'', JNum 1),
                     (''audio_ids'', JStr (''-1_1_8a7f,-1_2_8a7f,-1_3_8a7f,-1_4_8a7f,-1_5_8a7f,''
                                           @ ''-1_6_8a7f,-1_7_8a7f,-1_8_8a7f,-1_9_8a7f,-1_10_8a7f''))]],
          auths = 0\<rparr>)
   \<and> (length (map example_id [1..11]) + 9) div 10 = 2"
  by code_simp


section \<open>Properties of get\_iter\<close>

lemma scrap_tracks_groups_sent:
  assumes "scrap_tracks_groups ext user_id convert groups http = (tracks, r, http')"
  shows "\<exists>reqs. sent http' = sent http @ reqs \<and> (\<forall>q \<in> set reqs. \<exists>x. q = reload_audios x)"
  using assms
proof (induction groups arbitrary: tracks r http http')
  case Nil
  then show ?case by simp
next
  case (Cons g groups)
  show ?case
  proof (cases "audio_ids g")
    case (Inl e)
    with Cons.prems show ?thesis by simp
  next
    case (Inr x)
    obtain response http1 where s: "send (reload_audios x) http = (response, http1)"
      by (cases "send (reload_audios x) http")
    note one = sent_send [OF s]
    show ?thesis
    proof (cases "json_body response")
      case (Inl e)
      with Inr s Cons.prems one show ?thesis by auto
    next
      case result: (Inr result)
      obtain ts r1 where here: "tracks_of_result ext user_id convert result = (ts, r1)"
        by (cases "tracks_of_result ext user_id convert result")
      show ?thesis
      proof (cases r1)
        case (Inl e)
        with Inr s result here Cons.prems one show ?thesis by auto
      next
        case ok: (Inr u)
        obtain ts' r' h' where rest:
          "scrap_tracks_groups ext user_id convert groups http1 = (ts', r', h')"
          by (cases "scrap_tracks_groups ext user_id convert groups http1")
        with Inr s result here ok Cons.prems have "h' = http'"
          by auto
        with Cons.IH [OF rest] obtain reqs where "sent http' = sent http1 @ reqs"
          "\<forall>q \<in> set reqs. \<exists>x. q = reload_audios x"
          by blast
        with one show ?thesis
          by (intro exI [of _ "reload_audios x # reqs"]) auto
      qed
    qed
  qed
qed

lemma scrap_tracks_sent:
  assumes "scrap_tracks ext ids user_id http convert = (tracks, r, http')"
  shows "\<exists>reqs. sent http' = sent http @ reqs \<and> (\<forall>q \<in> set reqs. \<exists>x. q = reload_audios x)"
  using assms unfolding scrap_tracks_def by (rule scrap_tracks_groups_sent)

lemma act_of_reload_audios [simp]: "act_of (reload_audios x) = None"
  by (simp add: act_of_def reload_audios_def)

lemma act_of_load_section [simp]:
  "act_of (load_section owner_id album_id access_hash offset) = Some (JStr ''load_section'')"
  by (simp add: act_of_def load_section_def)

lemma offset_of_load_section [simp]:
  "offset_of (load_section owner_id album_id access_hash offset) = Some (JNum offset)"
  by (simp add: offset_of_def load_section_def)

text \<open>One turn of the loop, as the page that answers its request decides it.\<close>

lemma get_iter_loop_page:
  assumes "send (load_section owner_id album_id access_hash offset) http = (Json response, http1)"
    and "and_then (item_of response ''data'') (\<lambda>data. item_at data 0) = Inr data0"
  shows "\<not> truthy data0 \<Longrightarrow>
           get_iter_loop ext self owner_id album_id access_hash offset_diff offset http
             = ([], Inl AccessDenied, http1)"
    and "truthy data0 \<Longrightarrow> and_then (item_of data0 ''list'') scrap_ids = Inr [] \<Longrightarrow>
           get_iter_loop ext self owner_id album_id access_hash offset_diff offset http
             = ([], Inr (), http1)"
    and "truthy data0 \<Longrightarrow> and_then (item_of data0 ''list'') scrap_ids = Inr ids \<Longrightarrow> ids \<noteq> [] \<Longrightarrow>
         scrap_tracks ext ids (self_user_id self) http1 (self_convert_m3u8_links self)
           = (page_tracks, Inr (), http2) \<Longrightarrow>
         item_of data0 ''hasMore'' = Inr has_more \<Longrightarrow>
           get_iter_loop ext self owner_id album_id access_hash offset_diff offset http
             = (if truthy has_more
                then (case get_iter_loop ext self owner_id album_id access_hash offset_diff
                             (offset + offset_diff) http2 of
                        (later, r, http3) \<Rightarrow> (page_tracks @ later, r, http3))
                else (page_tracks, Inr (), http2))"
  using assms by (subst get_iter_loop.simps; simp)+

lemma get_iter_loop_turn:
  assumes "get_iter_loop ext self owner_id album_id access_hash offset_diff offset http
             = (tracks, r, http')"
  obtains (last) reloads where
      "sent http' = sent http @ load_section owner_id album_id access_hash offset # reloads"
      "\<forall>q \<in> set reloads. \<exists>x. q = reload_audios x"
  | (further) reloads http2 later where
      "sent http2 = sent http @ load_section owner_id album_id access_hash offset # reloads"
      "\<forall>q \<in> set reloads. \<exists>x. q = reload_audios x"
      "length (script http2) < length (script http)"
      "get_iter_loop ext self owner_id album_id access_hash offset_diff (offset + offset_diff) http2
         = (later, r, http')"
proof -
  obtain answer http1
    where s: "send (load_section owner_id album_id access_hash offset) http = (answer, http1)"
    by (cases "send (load_section owner_id album_id access_hash offset) http")
  note one = sent_send [OF s]
  show ?thesis
  proof (cases "json_body answer")
    case (Inl e)
    with assms s have "http' = http1"
      by (subst (asm) get_iter_loop.simps) simp
    with one show ?thesis
      by (intro last [of "[]"]) simp_all
  next
    case response: (Inr response)
    note shorter = script_after_answer [OF s response]
    show ?thesis
    proof (cases "and_then (item_of response ''data'') (\<lambda>data. item_at data 0)")
      case (Inl e)
      with assms s response have "http' = http1"
        by (subst (asm) get_iter_loop.simps) simp
      with one show ?thesis
        by (intro last [of "[]"]) simp_all
    next
      case data0: (Inr data0)
      show ?thesis
      proof (cases "and_then (item_of data0 ''list'') scrap_ids")
        case (Inl e)
        with assms s response data0 have "http' = http1"
          by (subst (asm) get_iter_loop.simps) (simp split: if_splits)
        with one show ?thesis
          by (intro last [of "[]"]) simp_all
      next
        case ids: (Inr ids)
        show ?thesis
        proof (cases "\<not> truthy data0 \<or> ids = []")
          case True
          with assms s response data0 ids have "http' = http1"
            by (subst (asm) get_iter_loop.simps) (auto split: if_splits)
          with one show ?thesis
            by (intro last [of "[]"]) simp_all
        next
          case False
          obtain page_tracks r2 http2 where t:
            "scrap_tracks ext ids (self_user_id self) http1 (self_convert_m3u8_links self)
               = (page_tracks, r2, http2)"
            by (cases "scrap_tracks ext ids (self_user_id self) http1 (self_convert_m3u8_links self)")
          from scrap_tracks_sent [OF t] obtain reloads
            where reloads: "sent http2 = sent http1 @ reloads"
              "\<forall>q \<in> set reloads. \<exists>x. q = reload_audios x"
            by blast
          with one have sent2:
            "sent http2 = sent http @ load_section owner_id album_id access_hash offset # reloads"
            by simp
          from script_after_scrap_tracks [OF t] shorter
          have shorter2: "length (script http2) < length (script http)"
            by simp
          show ?thesis
          proof (cases "r2 = Inr () \<and> (\<exists>v. item_of data0 ''hasMore'' = Inr v \<and> truthy v)")
            case True
            obtain later r3 http3 where rec:
              "get_iter_loop ext self owner_id album_id access_hash offset_diff
                 (offset + offset_diff) http2 = (later, r3, http3)"
              by (cases "get_iter_loop ext self owner_id album_id access_hash offset_diff
                           (offset + offset_diff) http2")
            with assms s response data0 ids False t True have "r3 = r" "http3 = http'"
              by (subst (asm) (2) get_iter_loop.simps; auto)+
            with rec sent2 reloads(2) shorter2 show ?thesis
              by (intro further [of http2 reloads later]) simp_all
          next
            case stop: False
            with assms s response data0 ids False t have "http' = http2"
              by (subst (asm) get_iter_loop.simps)
                (auto split: sum.splits if_splits)
            with sent2 reloads(2) show ?thesis
              by (intro last [of reloads]) simp_all
          qed
        qed
      qed
    qed
  qed
qed

lemma get_iter_loop_offsets:
  assumes "get_iter_loop ext self owner_id album_id access_hash offset_diff offset http
             = (tracks, r, http')"
  shows "\<exists>k reqs. 0 < k \<and> sent http' = sent http @ reqs
           \<and> filter is_load_section reqs
               = map (\<lambda>i. load_section owner_id album_id access_hash (offset + int i * offset_diff))
                   [0..<k]"
  using assms
proof (induction "length (script http)" arbitrary: offset http tracks rule: less_induct)
  case less
  have no_load: "filter is_load_section reloads = []"
    if "\<forall>q \<in> set reloads. \<exists>x. q = reload_audios x" for reloads
    using that by (induction reloads) (auto simp: is_load_section_def)
  from less.prems show ?case
  proof (cases rule: get_iter_loop_turn)
    case (last reloads)
    with no_load [of reloads] show ?thesis
      by (intro exI [of _ 1] exI [of _ "load_section owner_id album_id access_hash offset # reloads"])
        (simp add: is_load_section_def)
  next
    case (further reloads http2 later)
    from less.hyps [OF further(3) further(4)] obtain k reqs
      where k: "sent http' = sent http2 @ reqs"
        "filter is_load_section reqs
           = map (\<lambda>i. load_section owner_id album_id access_hash
                        (offset + offset_diff + int i * offset_diff)) [0..<k]"
      by blast
    have shift: "map (\<lambda>i. load_section owner_id album_id access_hash (offset + int i * offset_diff))
                   [0..<Suc k]
                 = load_section owner_id album_id access_hash offset
                   # map (\<lambda>i. load_section owner_id album_id access_hash
                                  (offset + offset_diff + int i * offset_diff)) [0..<k]"
      by (simp add: upt_rec [of 0] map_Suc_upt [symmetric] algebra_simps del: upt_Suc)
    show ?thesis
      using k further(1) no_load [OF further(2)]
      by (intro exI [of _ "Suc k"]
            exI [of _ "load_section owner_id album_id access_hash offset # reloads @ reqs"])
        (simp add: shift is_load_section_def del: upt_Suc)
  qed
qed

text \<open>
  C4. \<open>get_iter\<close> pages with a fixed step. The \<open>load_section\<close> requests of a run carry the
  offsets 0, 2000, 4000, ... in this order (the step is \<open>TRACKS_PER_ALBUM_PAGE = 2000\<close> with
  an album id and \<open>TRACKS_PER_USER_PAGE = 2000\<close> without). In every turn of the loop, for
  the page that answers the request at \<open>offset\<close>: an empty \<open>data[0]\<close> raises
  \<open>AccessDenied\<close>; a page without scraped ids ends the iteration; and once the tracks of
  the page are yielded, the loop goes on with \<open>offset + 2000\<close> if \<open>hasMore\<close> is true and
  ends if it is false.
\<close>

theorem get_iter_pagination:
  "(get_iter ext self owner_id album_id access_hash http0 = (tracks, r, http0') \<longrightarrow>
      (\<exists>k reqs. 0 < k \<and> sent http0' = sent http0 @ reqs
         \<and> map offset_of (filter is_load_section reqs)
             = map (\<lambda>i. Some (JNum (2000 * int i))) [0..<k]))
   \<and> (if album_id \<noteq> JNull then TRACKS_PER_ALBUM_PAGE else TRACKS_PER_USER_PAGE) = 2000
   \<and> (send (load_section owner album_id access_hash offset) http = (Json response, http1)
        \<and> and_then (item_of response ''data'') (\<lambda>data. item_at data 0) = Inr data0 \<longrightarrow>
        (\<not> truthy data0 \<longrightarrow>
           get_iter_loop ext self owner album_id access_hash 2000 offset http
             = ([], Inl AccessDenied, http1))
      \<and> (truthy data0 \<and> and_then (item_of data0 ''list'') scrap_ids = Inr [] \<longrightarrow>
           get_iter_loop ext self owner album_id access_hash 2000 offset http
             = ([], Inr (), http1))
      \<and> (truthy data0 \<and> and_then (item_of data0 ''list'') scrap_ids = Inr ids \<and> ids \<noteq> []
          \<and> scrap_tracks ext ids (self_user_id self) http1 (self_convert_m3u8_links self)
              = (page_tracks, Inr (), http2)
          \<and> item_of data0 ''hasMore'' = Inr has_more \<longrightarrow>
           get_iter_loop ext self owner album_id access_hash 2000 offset http
             = (if truthy has_more
                then (case get_iter_loop ext self owner album_id access_hash 2000
                             (offset + 2000) http2 of
                        (later, r, http3) \<Rightarrow> (page_tracks @ later, r, http3))
                else (page_tracks, Inr (), http2))))"
proof -
  have step: "(if album_id \<noteq> JNull then TRACKS_PER_ALBUM_PAGE else TRACKS_PER_USER_PAGE) = 2000"
    by (simp add: TRACKS_PER_ALBUM_PAGE_def TRACKS_PER_USER_PAGE_def)
  have offsets: "\<exists>k reqs. 0 < k \<and> sent http0' = sent http0 @ reqs
         \<and> map offset_of (filter is_load_section reqs)
             = map (\<lambda>i. Some (JNum (2000 * int i))) [0..<k]"
    if "get_iter ext self owner_id album_id access_hash http0 = (tracks, r, http0')"
  proof -
    from that have "get_iter_loop ext self (if owner_id = JNull then self_user_id self else owner_id)
                      album_id access_hash 2000 0 http0 = (tracks, r, http0')"
      by (simp only: get_iter_def step)
    from get_iter_loop_offsets [OF this] obtain k reqs
      where "0 < k" "sent http0' = sent http0 @ reqs"
        "filter is_load_section reqs
           = map (\<lambda>i. load_section (if owner_id = JNull then self_user_id self else owner_id)
                        album_id access_hash (0 + int i * 2000)) [0..<k]"
      by blast
    then show ?thesis
      by (intro exI [of _ k] exI [of _ reqs]) (simp add: comp_def mult.commute)
  qed
  show ?thesis
    using offsets step get_iter_loop_page [of owner album_id access_hash offset http response http1 data0]
    by (simp only: simp_thms) blast
qed

theorem get_iter_pagination_witness:
  "\<exists>tracks r http' k reqs.
     get_iter example_externals example_self JNull (JNum 5) (JStr ''ab'')
       (server [Json (section_page [1] True), reloaded [1],
                Json (section_page [2] False), reloaded [2], Json denied_page])
       = (tracks, r, http')
     \<and> 0 < k
     \<and> sent http' = sent (server [Json (section_page [1] True), reloaded [1],
                Json (section_page [2] False), reloaded [2], Json denied_page]) @ reqs
     \<and> map offset_of (filter is_load_section reqs) = map (\<lambda>i. Some (JNum (2000 * int i))) [0..<k]
     \<and> map offset_of (filter is_load_section (sent http')) = [Some (JNum 0), Some (JNum 2000)]
     \<and> tracks = [example_track 1, example_track 2]
     \<and> r = Inr ()
     \<and> get_iter_loop example_externals example_self (JNum 7) JNull JNull 2000 4000
           (server [Json denied_page])
         = ([], Inl AccessDenied,
            \<lparr>script = [], sent = [load_section (JNum 7) JNull JNull 4000], auths = 0\<rparr>)"
proof -
  let ?http = "server [Json (section_page [1] True), reloaded [1],
                Json (section_page [2] False), reloaded [2], Json denied_page]"
  let ?run = "get_iter example_externals example_self JNull (JNum 5) (JStr ''ab'') ?http"
  have run: "?run = (fst ?run, fst (snd ?run), snd (snd ?run))"
    by (simp only: prod.collapse)
  have ended: "fst (snd ?run) = Inr ()"
    by code_simp
  have tracks: "fst ?run = [example_track 1, example_track 2]"
    by code_simp
  have offsets: "map offset_of (filter is_load_section (sent (snd (snd ?run))))
                   = [Some (JNum 0), Some (JNum 2000)]"
    by code_simp
  have paged: "\<exists>k reqs. 0 < k \<and> sent (snd (snd ?run)) = sent ?http @ reqs
         \<and> map offset_of (filter is_load_section reqs)
             = map (\<lambda>i. Some (JNum (2000 * int i))) [0..<k]"
    by (rule get_iter_pagination [THEN conjunct1, THEN mp, OF run])
  have answer: "send (load_section (JNum 7) JNull JNull 4000) (server [Json denied_page])
                  = (Json denied_page,
                     \<lparr>script = [], sent = [load_section (JNum 7) JNull JNull 4000], auths = 0\<rparr>)"
    by (simp add: send_def server_def)
  have data0: "and_then (item_of denied_page ''data'') (\<lambda>data. item_at data 0) = Inr (JBool False)"
    by (simp add: denied_page_def)
  have empty: "\<not> truthy (JBool False)"
    by simp
  have denied: "get_iter_loop example_externals example_self (JNum 7) JNull JNull 2000 4000
                  (server [Json denied_page])
                = ([], Inl AccessDenied,
                   \<lparr>script = [], sent = [load_section (JNum 7) JNull JNull 4000], auths = 0\<rparr>)"
    by (rule get_iter_pagination [THEN conjunct2, THEN conjunct2, THEN mp,
          OF conjI [OF answer data0], THEN conjunct1, THEN mp, OF empty])
  from paged obtain k reqs where "0 < k" "sent (snd (snd ?run)) = sent ?http @ reqs"
    "map offset_of (filter is_load_section reqs) = map (\<lambda>i. Some (JNum (2000 * int i))) [0..<k]"
    by (elim exE conjE)
  with run ended tracks offsets denied show ?thesis
    by (intro exI [of _ "fst ?run"] exI [of _ "fst (snd ?run)"] exI [of _ "snd (snd ?run)"]
          exI [of _ k] exI [of _ reqs] conjI)
qed

section \<open>Properties of get\_updates\_iter\<close>

text \<open>One turn of the loop, as the page at hand decides it.\<close>

lemma get_updates_loop_page:
  assumes "updates_of json_response = Inr updates" and "updates_ids updates = Inr ids"
  shows "ids = [] \<Longrightarrow> get_updates_loop ext self json_response http = ([], Inr (), http)"
    and "ids \<noteq> [] \<Longrightarrow>
         scrap_tracks ext ids (self_user_id self) http (self_convert_m3u8_links self)
           = (page_tracks, Inr (), http1) \<Longrightarrow>
         length updates < 11 \<Longrightarrow>
           get_updates_loop ext self json_response http = (page_tracks, Inr (), http1)"
    and "ids \<noteq> [] \<Longrightarrow>
         scrap_tracks ext ids (self_user_id self) http (self_convert_m3u8_links self)
           = (page_tracks, Inr (), http1) \<Longrightarrow>
         11 \<le> length updates \<Longrightarrow>
         next_updates_request json_response = Inr req \<Longrightarrow>
         send req http1 = (answer, http2) \<Longrightarrow>
           get_updates_loop ext self json_response http
             = (case json_body answer of
                  Inl e \<Rightarrow> (page_tracks, Inl e, http2)
                | Inr json_response' \<Rightarrow>
                    (case get_updates_loop ext self json_response' http2 of
                       (later, r, http3) \<Rightarrow> (page_tracks @ later, r, http3)))"
  using assms by (subst get_updates_loop.simps; simp)+

text \<open>What a page of updates is read for, subscript by subscript.\<close>

lemma updates_of_parts:
  "updates_of j = Inr updates \<longleftrightarrow>
     (\<exists>p11 playlists ps. payload_1_1 j = Inr p11 \<and> item_of p11 ''playlists'' = Inr playlists
        \<and> iterate playlists = Inr ps
        \<and> comprehension (\<lambda>i. item_of i ''list'') ps = Inr updates)"
  by (auto simp: updates_of_def and_then_def split: sum.splits)

lemma updates_ids_parts:
  "updates_ids updates = Inr ids \<longleftrightarrow>
     (\<exists>firsts. comprehension (\<lambda>i. item_at i 0) (filter truthy updates) = Inr firsts
        \<and> scrap_ids (JArr firsts) = Inr ids)"
  by (auto simp: updates_ids_def and_then_def split: sum.splits)

lemma next_updates_request_parts:
  "next_updates_request j = Inr req \<longleftrightarrow>
     (\<exists>p11 section_id next_from. payload_1_1 j = Inr p11
        \<and> item_of p11 ''sectionId'' = Inr section_id \<and> item_of p11 ''nextFrom'' = Inr next_from
        \<and> req = Request ''POST'' ''https://vk.com/al_audio.php'' []
                  [(''al'', JNum 1), (''act'', JStr ''load_catalog_section''),
                   (''section_id'', section_id), (''start_from'', next_from)])"
  by (auto simp: next_updates_request_def load_catalog_section_def al_audio_def and_then_def
      split: sum.splits)

lemma page_ended:
  assumes "updates_of j = Inr updates" and "updates_ids updates = Inr ids"
    and "ids = [] \<or> length updates < 11"
  shows "\<exists>j' p11 playlists ps updates firsts ids.
           Json j = Json j' \<and> payload_1_1 j' = Inr p11
           \<and> item_of p11 ''playlists'' = Inr playlists \<and> iterate playlists = Inr ps
           \<and> comprehension (\<lambda>i. item_of i ''list'') ps = Inr updates
           \<and> comprehension (\<lambda>i. item_at i 0) (filter truthy updates) = Inr firsts
           \<and> scrap_ids (JArr firsts) = Inr ids
           \<and> (ids = [] \<or> length ps < 11)"
proof -
  from assms(1) obtain p11 playlists ps
    where "payload_1_1 j = Inr p11" "item_of p11 ''playlists'' = Inr playlists"
      "iterate playlists = Inr ps" "comprehension (\<lambda>i. item_of i ''list'') ps = Inr updates"
    unfolding updates_of_parts by blast
  moreover from assms(2) obtain firsts
    where "comprehension (\<lambda>i. item_at i 0) (filter truthy updates) = Inr firsts"
      "scrap_ids (JArr firsts) = Inr ids"
    unfolding updates_ids_parts by blast
  moreover from calculation(4) have "length updates = length ps"
    by (rule comprehension_length)
  ultimately show ?thesis
    using assms(3) by (intro exI [of _ j] exI [of _ p11] exI [of _ playlists] exI [of _ ps]
        exI [of _ updates] exI [of _ firsts] exI [of _ ids]) simp
qed

lemma page_followed:
  assumes "updates_of j = Inr updates" and "11 \<le> length updates"
    and "next_updates_request j = Inr req"
  shows "\<exists>j' p11 playlists ps section_id next_from.
           Json j = Json j' \<and> payload_1_1 j' = Inr p11
           \<and> item_of p11 ''playlists'' = Inr playlists \<and> iterate playlists = Inr ps
           \<and> 11 \<le> length ps
           \<and> item_of p11 ''sectionId'' = Inr section_id
           \<and> item_of p11 ''nextFrom'' = Inr next_from
           \<and> req = Request ''POST'' ''https://vk.com/al_audio.php'' []
                     [(''al'', JNum 1), (''act'', JStr ''load_catalog_section''),
                      (''section_id'', section_id), (''start_from'', next_from)]"
proof -
  from assms(1) obtain p11 playlists ps
    where page: "payload_1_1 j = Inr p11" "item_of p11 ''playlists'' = Inr playlists"
      "iterate playlists = Inr ps" "comprehension (\<lambda>i. item_of i ''list'') ps = Inr updates"
    unfolding updates_of_parts by blast
  from assms(3) page(1) obtain section_id next_from
    where "item_of p11 ''sectionId'' = Inr section_id" "item_of p11 ''nextFrom'' = Inr next_from"
      "req = Request ''POST'' ''https://vk.com/al_audio.php'' []
               [(''al'', JNum 1), (''act'', JStr ''load_catalog_section''),
                (''section_id'', section_id), (''start_from'', next_from)]"
    unfolding next_updates_request_parts by auto
  moreover from page(4) have "length updates = length ps"
    by (rule comprehension_length)
  ultimately show ?thesis
    using page assms(2)
    by (intro exI [of _ j] exI [of _ p11] exI [of _ playlists] exI [of _ ps]
        exI [of _ section_id] exI [of _ next_from]) simp
qed

lemma next_updates_request_is_page:
  "next_updates_request j = Inr req \<Longrightarrow> \<not> is_reload_audios req"
  unfolding next_updates_request_parts by (auto simp: is_reload_audios_def)

text \<open>The pages of a run of the loop, from the page at hand on.\<close>

lemma get_updates_loop_pages:
  assumes "get_updates_loop ext self j http = (tracks, r, http')"
  shows "\<exists>reqs. sent http' = sent http @ reqs
           \<and> script http' = drop (length reqs) (script http)
           \<and> successively
                (\<lambda>x y. \<exists>j' p11 playlists ps section_id next_from.
                   snd x = Json j' \<and> payload_1_1 j' = Inr p11
                   \<and> item_of p11 ''playlists'' = Inr playlists \<and> iterate playlists = Inr ps
                   \<and> 11 \<le> length ps
                   \<and> item_of p11 ''sectionId'' = Inr section_id
                   \<and> item_of p11 ''nextFrom'' = Inr next_from
                   \<and> fst y = Request ''POST'' ''https://vk.com/al_audio.php'' []
                               [(''al'', JNum 1), (''act'', JStr ''load_catalog_section''),
                                (''section_id'', section_id), (''start_from'', next_from)])
                ((q0, Json j)
                 # filter (\<lambda>x. \<not> is_reload_audios (fst x)) (exchanges reqs (script http)))
           \<and> (r = Inr () \<longrightarrow>
                (\<exists>j' p11 playlists ps updates firsts ids.
                   snd (last ((q0, Json j)
                              # filter (\<lambda>x. \<not> is_reload_audios (fst x))
                                  (exchanges reqs (script http)))) = Json j'
                   \<and> payload_1_1 j' = Inr p11
                   \<and> item_of p11 ''playlists'' = Inr playlists \<and> iterate playlists = Inr ps
                   \<and> comprehension (\<lambda>i. item_of i ''list'') ps = Inr updates
                   \<and> comprehension (\<lambda>i. item_at i 0) (filter truthy updates) = Inr firsts
                   \<and> scrap_ids (JArr firsts) = Inr ids
                   \<and> (ids = [] \<or> length ps < 11)))"
  using assms
proof (induction "length (script http)" arbitrary: j http tracks q0 rule: less_induct)
  case less
  note run = less.prems
  let ?follows = "\<lambda>x y :: request \<times> response.
      \<exists>j' p11 playlists ps section_id next_from.
         snd x = Json j' \<and> payload_1_1 j' = Inr p11
         \<and> item_of p11 ''playlists'' = Inr playlists \<and> iterate playlists = Inr ps
         \<and> 11 \<le> length ps
         \<and> item_of p11 ''sectionId'' = Inr section_id
         \<and> item_of p11 ''nextFrom'' = Inr next_from
         \<and> fst y = Request ''POST'' ''https://vk.com/al_audio.php'' []
                     [(''al'', JNum 1), (''act'', JStr ''load_catalog_section''),
                      (''section_id'', section_id), (''start_from'', next_from)]"
  let ?ended = "\<lambda>a. \<exists>j' p11 playlists ps updates firsts ids.
         a = Json j' \<and> payload_1_1 j' = Inr p11
         \<and> item_of p11 ''playlists'' = Inr playlists \<and> iterate playlists = Inr ps
         \<and> comprehension (\<lambda>i. item_of i ''list'') ps = Inr updates
         \<and> comprehension (\<lambda>i. item_at i 0) (filter truthy updates) = Inr firsts
         \<and> scrap_ids (JArr firsts) = Inr ids
         \<and> (ids = [] \<or> length ps < 11)"
  let ?pages = "\<lambda>http reqs. filter (\<lambda>x. \<not> is_reload_audios (fst x))
                                 (exchanges reqs (script http))"
  have raised: ?case if "r \<noteq> Inr ()" "sent http' = sent http @ reqs"
    "script http' = drop (length reqs) (script http)" "\<forall>q \<in> set reqs. is_reload_audios q"
  for reqs
    using that by (intro exI [of _ reqs]) (simp add: exchanges_reloads)
  have ended: ?case if "?ended (Json j)" "sent http' = sent http @ reqs"
    "script http' = drop (length reqs) (script http)" "\<forall>q \<in> set reqs. is_reload_audios q"
  for reqs
    using that by (intro exI [of _ reqs]) (simp add: exchanges_reloads)
  show ?case
  proof (cases "updates_of j")
    case (Inl e)
    with run have "http' = http" "r = Inl e"
      by (subst (asm) get_updates_loop.simps; simp)+
    then show ?thesis by (intro raised [of "[]"]) simp_all
  next
    case updates: (Inr updates)
    show ?thesis
    proof (cases "updates_ids updates")
      case (Inl e)
      with run updates have "http' = http" "r = Inl e"
        by (subst (asm) get_updates_loop.simps; simp)+
      then show ?thesis by (intro raised [of "[]"]) simp_all
    next
      case ids: (Inr ids)
      show ?thesis
      proof (cases "ids = []")
        case True
        with run updates ids have "http' = http"
          by (subst (asm) get_updates_loop.simps) simp
        moreover from True have "?ended (Json j)"
          by (intro page_ended [OF updates ids]) simp
        ultimately show ?thesis by (intro ended [of "[]"]) simp_all
      next
        case False
        obtain page_tracks r1 http1 where t:
          "scrap_tracks ext ids (self_user_id self) http (self_convert_m3u8_links self)
             = (page_tracks, r1, http1)"
          by (cases "scrap_tracks ext ids (self_user_id self) http (self_convert_m3u8_links self)")
        from scrap_tracks_script [OF t] obtain reqs1
          where reqs1: "sent http1 = sent http @ reqs1"
            "script http1 = drop (length reqs1) (script http)"
            "\<forall>q \<in> set reqs1. is_reload_audios q"
          by blast
        show ?thesis
        proof (cases r1)
          case (Inl e)
          with run updates ids False t have "http' = http1" "r = Inl e"
            by (subst (asm) get_updates_loop.simps; simp)+
          with reqs1 show ?thesis by (intro raised [of reqs1]) simp_all
        next
          case yielded: (Inr u)
          show ?thesis
          proof (cases "length updates < 11")
            case True
            with run updates ids False t yielded have "http' = http1"
              by (subst (asm) get_updates_loop.simps) simp
            moreover from True have "?ended (Json j)"
              by (intro page_ended [OF updates ids]) simp
            ultimately show ?thesis using reqs1 by (intro ended [of reqs1]) simp_all
          next
            case many: False
            show ?thesis
            proof (cases "next_updates_request j")
              case (Inl e)
              with run updates ids False t yielded many have "http' = http1" "r = Inl e"
                by (subst (asm) get_updates_loop.simps; simp)+
              with reqs1 show ?thesis by (intro raised [of reqs1]) simp_all
            next
              case req: (Inr req)
              obtain answer http2 where s: "send req http1 = (answer, http2)"
                by (cases "send req http1")
              note one = send_exchange [OF s]
              from many have "11 \<le> length updates" by simp
              note follows = page_followed [OF updates this req]
              note page = next_updates_request_is_page [OF req]
              have pages: "?pages http (reqs1 @ req # reqs)
                             = (req, answer) # ?pages http2 reqs" for reqs
                using exchanges_append [of reqs1 "[req] @ reqs" "script http"]
                  exchanges_append [of "[req]" reqs "script http1"]
                  exchanges_reloads [OF reqs1(3), of "script http"] reqs1(2) one(2,3) page
                by simp
              show ?thesis
              proof (cases "json_body answer")
                case (Inl e)
                with run updates ids False t yielded many req s
                have "http' = http2" "r = Inl e"
                  by (subst (asm) get_updates_loop.simps; simp)+
                with reqs1 one follows pages [of "[]"] show ?thesis
                  by (intro exI [of _ "reqs1 @ [req]"]) simp
              next
                case next_page: (Inr j')
                then have answer: "answer = Json j'"
                  by (cases answer) simp_all
                obtain later r3 http3 where rec:
                  "get_updates_loop ext self j' http2 = (later, r3, http3)"
                  by (cases "get_updates_loop ext self j' http2")
                with run updates ids False t yielded many req s next_page
                have same: "r3 = r" "http3 = http'"
                  by (subst (asm) (2) get_updates_loop.simps; auto)+
                from script_after_answer [OF s next_page] reqs1(2)
                have "length (script http2) < length (script http)"
                  by simp
                from less.hyps [OF this rec [unfolded same], of req] obtain reqs
                  where reqs: "sent http' = sent http2 @ reqs"
                    "script http' = drop (length reqs) (script http2)"
                    "successively ?follows ((req, Json j') # ?pages http2 reqs)"
                    "r = Inr () \<longrightarrow> ?ended (snd (last ((req, Json j') # ?pages http2 reqs)))"
                  by blast
                from reqs(1,2) reqs1(1,2) one(1,2)
                have log: "sent http' = sent http @ (reqs1 @ req # reqs)"
                  "script http' = drop (length (reqs1 @ req # reqs)) (script http)"
                  by (simp_all add: add.commute)
                from follows reqs(3)
                have chain: "successively ?follows
                               ((q0, Json j) # ?pages http (reqs1 @ req # reqs))"
                  unfolding pages answer by simp
                from reqs(4)
                have last: "r = Inr () \<longrightarrow>
                              ?ended (snd (last ((q0, Json j) # ?pages http (reqs1 @ req # reqs))))"
                  unfolding pages answer by simp
                from log chain last show ?thesis
                  by (intro exI [of _ "reqs1 @ req # reqs"] conjI)
              qed
            qed
          qed
        qed
      qed
    qed
  qed
qed

lemma get_updates_iter_pages:
  assumes "get_updates_iter ext self http0 = (tracks, r, http0')"
  shows "\<exists>reqs pages.
           sent http0' = sent http0 @ reqs
           \<and> filter (\<lambda>x. \<not> is_reload_audios (fst x)) (exchanges reqs (script http0)) = pages
           \<and> pages \<noteq> []
           \<and> fst (hd pages) = Request ''POST'' ''https://vk.com/al_audio.php'' []
                                 [(''al'', JNum 1), (''act'', JStr ''section''), (''claim'', JNum 0),
                                  (''is_layer'', JNum 0), (''owner_id'', self_user_id self),
                                  (''section'', JStr ''updates'')]
           \<and> successively
                (\<lambda>x y. \<exists>j' p11 playlists ps section_id next_from.
                   snd x = Json j' \<and> payload_1_1 j' = Inr p11
                   \<and> item_of p11 ''playlists'' = Inr playlists \<and> iterate playlists = Inr ps
                   \<and> 11 \<le> length ps
                   \<and> item_of p11 ''sectionId'' = Inr section_id
                   \<and> item_of p11 ''nextFrom'' = Inr next_from
                   \<and> fst y = Request ''POST'' ''https://vk.com/al_audio.php'' []
                               [(''al'', JNum 1), (''act'', JStr ''load_catalog_section''),
                                (''section_id'', section_id), (''start_from'', next_from)])
                pages
           \<and> (r = Inr () \<longrightarrow>
                (\<exists>j' p11 playlists ps updates firsts ids.
                   snd (last pages) = Json j' \<and> payload_1_1 j' = Inr p11
                   \<and> item_of p11 ''playlists'' = Inr playlists \<and> iterate playlists = Inr ps
                   \<and> comprehension (\<lambda>i. item_of i ''list'') ps = Inr updates
                   \<and> comprehension (\<lambda>i. item_at i 0) (filter truthy updates) = Inr firsts
                   \<and> scrap_ids (JArr firsts) = Inr ids
                   \<and> (ids = [] \<or> length ps < 11)))"
proof -
  let ?section = "Request ''POST'' ''https://vk.com/al_audio.php'' []
                    [(''al'', JNum 1), (''act'', JStr ''section''), (''claim'', JNum 0),
                     (''is_layer'', JNum 0), (''owner_id'', self_user_id self),
                     (''section'', JStr ''updates'')]"
  have entry: "updates_section self = ?section"
    by (simp add: updates_section_def al_audio_def)
  have page: "\<not> is_reload_audios ?section"
    by (simp add: is_reload_audios_def)
  obtain answer http1 where s: "send ?section http0 = (answer, http1)"
    by (cases "send ?section http0")
  note one = send_exchange [OF s]
  have pages: "filter (\<lambda>x. \<not> is_reload_audios (fst x)) (exchanges (?section # reqs) (script http0))
                 = (?section, answer)
                   # filter (\<lambda>x. \<not> is_reload_audios (fst x)) (exchanges reqs (script http1))"
    for reqs
    using exchanges_append [of "[?section]" reqs "script http0"] one(2,3) page
    by simp
  show ?thesis
  proof (cases "json_body answer")
    case (Inl e)
    with assms s entry have "http0' = http1" "r = Inl e"
      by (simp_all add: get_updates_iter_def)
    with one pages [of "[]"] show ?thesis
      by (intro exI [of _ "[?section]"] exI [of _ "[(?section, answer)]"]) simp
  next
    case (Inr j)
    then have answer: "answer = Json j"
      by (cases answer) simp_all
    from assms s entry Inr have "get_updates_loop ext self j http1 = (tracks, r, http0')"
      by (simp add: get_updates_iter_def)
    from get_updates_loop_pages [OF this, of ?section] obtain reqs
      where reqs: "sent http0' = sent http1 @ reqs"
        and rest: "successively
                (\<lambda>x y. \<exists>j' p11 playlists ps section_id next_from.
                   snd x = Json j' \<and> payload_1_1 j' = Inr p11
                   \<and> item_of p11 ''playlists'' = Inr playlists \<and> iterate playlists = Inr ps
                   \<and> 11 \<le> length ps
                   \<and> item_of p11 ''sectionId'' = Inr section_id
                   \<and> item_of p11 ''nextFrom'' = Inr next_from
                   \<and> fst y = Request ''POST'' ''https://vk.com/al_audio.php'' []
                               [(''al'', JNum 1), (''act'', JStr ''load_catalog_section''),
                                (''section_id'', section_id), (''start_from'', next_from)])
                ((?section, Json j)
                 # filter (\<lambda>x. \<not> is_reload_audios (fst x)) (exchanges reqs (script http1)))"
          "r = Inr () \<longrightarrow>
                (\<exists>j' p11 playlists ps updates firsts ids.
                   snd (last ((?section, Json j)
                              # filter (\<lambda>x. \<not> is_reload_audios (fst x))
                                  (exchanges reqs (script http1)))) = Json j'
                   \<and> payload_1_1 j' = Inr p11
                   \<and> item_of p11 ''playlists'' = Inr playlists \<and> iterate playlists = Inr ps
                   \<and> comprehension (\<lambda>i. item_of i ''list'') ps = Inr updates
                   \<and> comprehension (\<lambda>i. item_at i 0) (filter truthy updates) = Inr firsts
                   \<and> scrap_ids (JArr firsts) = Inr ids
                   \<and> (ids = [] \<or> length ps < 11))"
      by blast
    from reqs one(1) have "sent http0' = sent http0 @ ?section # reqs"
      by simp
    with rest show ?thesis
      unfolding answer [symmetric] pages [of reqs, symmetric]
      by (intro exI [of _ "?section # reqs"]
            exI [of _ "filter (\<lambda>x. \<not> is_reload_audios (fst x))
                         (exchanges (?section # reqs) (script http0))"])
        (simp add: pages)
  qed
qed

text \<open>
  C7. The pages of a run of \<open>get_updates_iter\<close> are the requests other than
  \<open>reload_audios\<close>, each with its answer. The first is the request for the section
  \<open>updates\<close>. Every later one follows a page with 11 or more update playlists and is the
  \<open>load_catalog_section\<close> request with that page's \<open>sectionId\<close> and \<open>nextFrom\<close>. A
  run that ends without an exception ends on a page with fewer than 11 update playlists
  or without scraped ids. In a turn of the loop, for the page at hand: without scraped
  ids the generator stops and sends nothing; with ids, once the tracks of the page are
  yielded, it stops if the page has fewer than 11 update playlists and sends the request
  for the next page if it has 11 or more.
\<close>

theorem get_updates_iter_continuation:
  "(get_updates_iter ext self http0 = (tracks, r, http0') \<longrightarrow>
      (\<exists>reqs pages.
         sent http0' = sent http0 @ reqs
         \<and> filter (\<lambda>x. \<not> is_reload_audios (fst x)) (exchanges reqs (script http0)) = pages
         \<and> pages \<noteq> []
         \<and> fst (hd pages) = Request ''POST'' ''https://vk.com/al_audio.php'' []
                               [(''al'', JNum 1), (''act'', JStr ''section''), (''claim'', JNum 0),
                                (''is_layer'', JNum 0), (''owner_id'', self_user_id self),
                                (''section'', JStr ''updates'')]
         \<and> successively
              (\<lambda>x y. \<exists>j' p11 playlists ps section_id next_from.
                 snd x = Json j' \<and> payload_1_1 j' = Inr p11
                 \<and> item_of p11 ''playlists'' = Inr playlists \<and> iterate playlists = Inr ps
                 \<and> 11 \<le> length ps
                 \<and> item_of p11 ''sectionId'' = Inr section_id
                 \<and> item_of p11 ''nextFrom'' = Inr next_from
                 \<and> fst y = Request ''POST'' ''https://vk.com/al_audio.php'' []
                             [(''al'', JNum 1), (''act'', JStr ''load_catalog_section''),
                              (''section_id'', section_id), (''start_from'', next_from)])
              pages
         \<and> (r = Inr () \<longrightarrow>
              (\<exists>j' p11 playlists ps updates firsts ids.
                 snd (last pages) = Json j' \<and> payload_1_1 j' = Inr p11
                 \<and> item_of p11 ''playlists'' = Inr playlists \<and> iterate playlists = Inr ps
                 \<and> comprehension (\<lambda>i. item_of i ''list'') ps = Inr updates
                 \<and> comprehension (\<lambda>i. item_at i 0) (filter truthy updates) = Inr firsts
                 \<and> scrap_ids (JArr firsts) = Inr ids
                 \<and> (ids = [] \<or> length ps < 11)))))
   \<and> (send (Request ''POST'' ''https://vk.com/al_audio.php'' []
               [(''al'', JNum 1), (''act'', JStr ''section''), (''claim'', JNum 0),
                (''is_layer'', JNum 0), (''owner_id'', self_user_id self),
                (''section'', JStr ''updates'')]) http = (Json j, http1) \<longrightarrow>
        get_updates_iter ext self http = get_updates_loop ext self j http1)
   \<and> (payload_1_1 j = Inr p11
        \<and> item_of p11 ''playlists'' = Inr playlists \<and> iterate playlists = Inr ps
        \<and> comprehension (\<lambda>i. item_of i ''list'') ps = Inr updates
        \<and> comprehension (\<lambda>i. item_at i 0) (filter truthy updates) = Inr firsts
        \<and> scrap_ids (JArr firsts) = Inr ids \<longrightarrow>
        (ids = [] \<longrightarrow> get_updates_loop ext self j http1 = ([], Inr (), http1))
      \<and> (ids \<noteq> []
          \<and> scrap_tracks ext ids (self_user_id self) http1 (self_convert_m3u8_links self)
              = (page_tracks, Inr (), http2) \<longrightarrow>
           (length ps < 11 \<longrightarrow>
              get_updates_loop ext self j http1 = (page_tracks, Inr (), http2))
         \<and> (11 \<le> length ps
             \<and> item_of p11 ''sectionId'' = Inr section_id
             \<and> item_of p11 ''nextFrom'' = Inr next_from \<longrightarrow>
              get_updates_loop ext self j http1
                = (case send (Request ''POST'' ''https://vk.com/al_audio.php'' []
                                [(''al'', JNum 1), (''act'', JStr ''load_catalog_section''),
                                 (''section_id'', section_id), (''start_from'', next_from)])
                          http2 of
                     (answer, http3) \<Rightarrow>
                       (case json_body answer of
                          Inl e \<Rightarrow> (page_tracks, Inl e, http3)
                        | Inr j' \<Rightarrow>
                            (case get_updates_loop ext self j' http3 of
                               (later, r, http4) \<Rightarrow> (page_tracks @ later, r, http4)))))))"
proof (intro conjI impI; (elim conjE)?)
  assume "get_updates_iter ext self http0 = (tracks, r, http0')"
  then show "\<exists>reqs pages.
         sent http0' = sent http0 @ reqs
         \<and> filter (\<lambda>x. \<not> is_reload_audios (fst x)) (exchanges reqs (script http0)) = pages
         \<and> pages \<noteq> []
         \<and> fst (hd pages) = Request ''POST'' ''https://vk.com/al_audio.php'' []
                               [(''al'', JNum 1), (''act'', JStr ''section''), (''claim'', JNum 0),
                                (''is_layer'', JNum 0), (''owner_id'', self_user_id self),
                                (''section'', JStr ''updates'')]
         \<and> successively
              (\<lambda>x y. \<exists>j' p11 playlists ps section_id next_from.
                 snd x = Json j' \<and> payload_1_1 j' = Inr p11
                 \<and> item_of p11 ''playlists'' = Inr playlists \<and> iterate playlists = Inr ps
                 \<and> 11 \<le> length ps
                 \<and> item_of p11 ''sectionId'' = Inr section_id
                 \<and> item_of p11 ''nextFrom'' = Inr next_from
                 \<and> fst y = Request ''POST'' ''https://vk.com/al_audio.php'' []
                             [(''al'', JNum 1), (''act'', JStr ''load_catalog_section''),
                              (''section_id'', section_id), (''start_from'', next_from)])
              pages
         \<and> (r = Inr () \<longrightarrow>
              (\<exists>j' p11 playlists ps updates firsts ids.
                 snd (last pages) = Json j' \<and> payload_1_1 j' = Inr p11
                 \<and> item_of p11 ''playlists'' = Inr playlists \<and> iterate playlists = Inr ps
                 \<and> comprehension (\<lambda>i. item_of i ''list'') ps = Inr updates
                 \<and> comprehension (\<lambda>i. item_at i 0) (filter truthy updates) = Inr firsts
                 \<and> scrap_ids (JArr firsts) = Inr ids
                 \<and> (ids = [] \<or> length ps < 11)))"
    by (rule get_updates_iter_pages)
next
  assume "send (Request ''POST'' ''https://vk.com/al_audio.php'' []
               [(''al'', JNum 1), (''act'', JStr ''section''), (''claim'', JNum 0),
                (''is_layer'', JNum 0), (''owner_id'', self_user_id self),
                (''section'', JStr ''updates'')]) http = (Json j, http1)"
  then show "get_updates_iter ext self http = get_updates_loop ext self j http1"
    by (simp add: get_updates_iter_def updates_section_def al_audio_def)
next
  assume page: "payload_1_1 j = Inr p11" "item_of p11 ''playlists'' = Inr playlists"
    "iterate playlists = Inr ps" "comprehension (\<lambda>i. item_of i ''list'') ps = Inr updates"
    "comprehension (\<lambda>i. item_at i 0) (filter truthy updates) = Inr firsts"
    "scrap_ids (JArr firsts) = Inr ids"
  from page(1-4) have updates: "updates_of j = Inr updates"
    unfolding updates_of_parts by blast
  from page(5,6) have ids: "updates_ids updates = Inr ids"
    unfolding updates_ids_parts by blast
  from page(4) have count: "length updates = length ps"
    by (rule comprehension_length)
  {
    assume "ids = []"
    then show "get_updates_loop ext self j http1 = ([], Inr (), http1)"
      by (rule get_updates_loop_page(1) [OF updates ids])
  }
  assume tracks: "ids \<noteq> []"
    "scrap_tracks ext ids (self_user_id self) http1 (self_convert_m3u8_links self)
       = (page_tracks, Inr (), http2)"
  {
    assume "length ps < 11"
    with count show "get_updates_loop ext self j http1 = (page_tracks, Inr (), http2)"
      by (intro get_updates_loop_page(2) [OF updates ids tracks]) simp
  }
  assume many: "11 \<le> length ps"
    and keys: "item_of p11 ''sectionId'' = Inr section_id"
      "item_of p11 ''nextFrom'' = Inr next_from"
  let ?req = "Request ''POST'' ''https://vk.com/al_audio.php'' []
                [(''al'', JNum 1), (''act'', JStr ''load_catalog_section''),
                 (''section_id'', section_id), (''start_from'', next_from)]"
  from page(1) keys have req: "next_updates_request j = Inr ?req"
    unfolding next_updates_request_parts by simp
  obtain answer http3 where s: "send ?req http2 = (answer, http3)"
    by (cases "send ?req http2")
  from many count have "11 \<le> length updates"
    by simp
  from get_updates_loop_page(3) [OF updates ids tracks this req s] s
  show "get_updates_loop ext self j http1
          = (case send ?req http2 of
               (answer, http3) \<Rightarrow>
                 (case json_body answer of
                    Inl e \<Rightarrow> (page_tracks, Inl e, http3)
                  | Inr j' \<Rightarrow>
                      (case get_updates_loop ext self j' http3 of
                         (later, r, http4) \<Rightarrow> (page_tracks @ later, r, http4))))"
    by simp
qed

theorem get_updates_iter_continuation_witness:
  "get_updates_iter example_externals example_self
     (server [Json (updates_page [1..11]), reloaded [1, 2], reloaded [3],
              Json (updates_page [12]), reloaded [12]])
   = ([example_track 1, example_track 2, example_track 3, example_track 12], Inr (),
      \<lparr>script = [],
        sent = [Request ''POST'' ''https://vk.com/al_audio.php'' []
                  [(''al'', JNum 1), (''act'', JStr ''section''), (''claim'', JNum 0),
                   (''is_layer'', JNum 0), (''owner_id'', JNum 7), (''section'', JStr ''updates'')],
                Request ''POST'' ''https://vk.com/al_audio.php'' [(''act'', JStr ''reload_audios'')]
                  [(''al'', JNum 1),
                   (''audio_ids'', JStr ''-1_1_8a7f,-1_2_8a7f,-1_3_8a7f,-1_4_8a7f,-1_5_8a7f,-1_6_8a7f,-1_7_8a7f,-1_8_8a7f,-1_9_8a7f,-1_10_8a7f'')],
                Request ''POST'' ''https://vk.com/al_audio.php'' [(''act'', JStr ''reload_audios'')]
                  [(''al'', JNum 1), (''audio_ids'', JStr ''-1_11_8a7f'')],
                Request ''POST'' ''https://vk.com/al_audio.php'' []
                  [(''al'', JNum 1), (''act'', JStr ''load_catalog_section''),
                   (''section_id'', JStr ''section''), (''start_from'', JStr ''next'')],
                Request ''POST'' ''https://vk.com/al_audio.php'' [(''act'', JStr ''reload_audios'')]
                  [(''al'', JNum 1), (''audio_ids'', JStr ''-1_12_8a7f'')]],
        auths = 0\<rparr>)
   \<and> get_updates_iter example_externals example_self
       (server [Json (updates_page [1..10]), reloaded [1, 2],
                Json (updates_page [12]), reloaded [12]])
     = ([example_track 1, example_track 2], Inr (),
        \<lparr>script = [Json (updates_page [12]), reloaded [12]],
          sent = [Request ''POST'' ''https://vk.com/al_audio.php'' []
                    [(''al'', JNum 1), (''act'', JStr ''section''), (''claim'', JNum 0),
                     (''is_layer'', JNum 0), (''owner_id'', JNum 7), (''section'', JStr ''updates'')],
                  Request ''POST'' ''https://vk.com/al_audio.php'' [(''act'', JStr ''reload_audios'')]
                    [(''al'', JNum 1),
                     (''audio_ids'', JStr ''-1_1_8a7f,-1_2_8a7f,-1_3_8a7f,-1_4_8a7f,-1_5_8a7f,-1_6_8a7f,-1_7_8a7f,-1_8_8a7f,-1_9_8a7f,-1_10_8a7f'')]],
          auths = 0\<rparr>)
   \<and> get_updates_loop example_externals example_self (updates_page [1..11])
       \<lparr>script = [reloaded [1, 2], reloaded [3], Json (updates_page [12]), reloaded [12]],
         sent = [Request ''POST'' ''https://vk.com/al_audio.php'' []
                   [(''al'', JNum 1), (''act'', JStr ''section''), (''claim'', JNum 0),
                    (''is_layer'', JNum 0), (''owner_id'', JNum 7), (''section'', JStr ''updates'')]],
         auths = 0\<rparr>
     = get_updates_iter example_externals example_self
         (server [Json (updates_page [1..11]), reloaded [1, 2], reloaded [3],
                  Json (updates_page [12]), reloaded [12]])
   \<and> length (filter (\<lambda>x. \<not> is_reload_audios (fst x))
         (exchanges
            [Request ''POST'' ''https://vk.com/al_audio.php'' []
               [(''al'', JNum 1), (''act'', JStr ''section''), (''claim'', JNum 0),
                (''is_layer'', JNum 0), (''owner_id'', JNum 7), (''section'', JStr ''updates'')],
             Request ''POST'' ''https://vk.com/al_audio.php'' [(''act'', JStr ''reload_audios'')]
               [(''al'', JNum 1), (''audio_ids'', JStr ''-1_11_8a7f'')],
             Request ''POST'' ''https://vk.com/al_audio.php'' []
               [(''al'', JNum 1), (''act'', JStr ''load_catalog_section''),
                (''section_id'', JStr ''section''), (''start_from'', JStr ''next'')]]
            [Json (updates_page [1..11]), reloaded [3]])) = 2"
proof -
  let ?section = "Request ''POST'' ''https://vk.com/al_audio.php'' []
                    [(''al'', JNum 1), (''act'', JStr ''section''), (''claim'', JNum 0),
                     (''is_layer'', JNum 0), (''owner_id'', JNum 7), (''section'', JStr ''updates'')]"
  let ?http = "server [Json (updates_page [1..11]), reloaded [1, 2], reloaded [3],
                       Json (updates_page [12]), reloaded [12]]"
  let ?http1 = "\<lparr>script = [reloaded [1, 2], reloaded [3], Json (updates_page [12]), reloaded [12]],
                 sent = [?section], auths = 0\<rparr>"
  have self: "self_user_id example_self = JNum 7"
    by (simp add: example_self_def)
  have many: "get_updates_iter example_externals example_self ?http
   = ([example_track 1, example_track 2, example_track 3, example_track 12], Inr (),
      \<lparr>script = [],
        sent = [?section,
                Request ''POST'' ''https://vk.com/al_audio.php'' [(''act'', JStr ''reload_audios'')]
                  [(''al'', JNum 1),
                   (''audio_ids'', JStr ''-1_1_8a7f,-1_2_8a7f,-1_3_8a7f,-1_4_8a7f,-1_5_8a7f,-1_6_8a7f,-1_7_8a7f,-1_8_8a7f,-1_9_8a7f,-1_10_8a7f'')],
                Request ''POST'' ''https://vk.com/al_audio.php'' [(''act'', JStr ''reload_audios'')]
                  [(''al'', JNum 1), (''audio_ids'', JStr ''-1_11_8a7f'')],
                Request ''POST'' ''https://vk.com/al_audio.php'' []
                  [(''al'', JNum 1), (''act'', JStr ''load_catalog_section''),
                   (''section_id'', JStr ''section''), (''start_from'', JStr ''next'')],
                Request ''POST'' ''https://vk.com/al_audio.php'' [(''act'', JStr ''reload_audios'')]
                  [(''al'', JNum 1), (''audio_ids'', JStr ''-1_12_8a7f'')]],
        auths = 0\<rparr>)"
    by code_simp
  have few: "get_updates_iter example_externals example_self
       (server [Json (updates_page [1..10]), reloaded [1, 2],
                Json (updates_page [12]), reloaded [12]])
     = ([example_track 1, example_track 2], Inr (),
        \<lparr>script = [Json (updates_page [12]), reloaded [12]],
          sent = [?section,
                  Request ''POST'' ''https://vk.com/al_audio.php'' [(''act'', JStr ''reload_audios'')]
                    [(''al'', JNum 1),
                     (''audio_ids'', JStr ''-1_1_8a7f,-1_2_8a7f,-1_3_8a7f,-1_4_8a7f,-1_5_8a7f,-1_6_8a7f,-1_7_8a7f,-1_8_8a7f,-1_9_8a7f,-1_10_8a7f'')]],
          auths = 0\<rparr>)"
    by code_simp
  have "send ?section ?http = (Json (updates_page [1..11]), ?http1)"
    by (simp add: send_def server_def)
  from get_updates_iter_continuation [THEN conjunct2, THEN conjunct1, THEN mp,
      of example_self, unfolded self, OF this]
  have entry: "get_updates_loop example_externals example_self (updates_page [1..11]) ?http1
                 = get_updates_iter example_externals example_self ?http"
    by (rule sym)
  have pages: "length (filter (\<lambda>x. \<not> is_reload_audios (fst x))
         (exchanges
            [?section,
             Request ''POST'' ''https://vk.com/al_audio.php'' [(''act'', JStr ''reload_audios'')]
               [(''al'', JNum 1), (''audio_ids'', JStr ''-1_11_8a7f'')],
             Request ''POST'' ''https://vk.com/al_audio.php'' []
               [(''al'', JNum 1), (''act'', JStr ''load_catalog_section''),
                (''section_id'', JStr ''section''), (''start_from'', JStr ''next'')]]
            [Json (updates_page [1..11]), reloaded [3]])) = 2"
    by (simp add: is_reload_audios_def)
  from many few entry pages show ?thesis
    by (intro conjI)
qed


section \<open>Properties of the retry\<close>






















section \<open>The offset of \_iter\_playlist\_by\_response\<close>

text \<open>
  C1. With \<open>offset = 2\<close> and a playlist of two pages with the ids 1, 2, 3 and 4, 5, the
  tracks of the ids after the first two are those of 3, 4 and 5. The generator yields the
  tracks of 3 and 5 only, and never asks for 4: on the first page \<open>ids\<close> is cut to its
  last id before \<open>offset_left += len(ids)\<close> counts it, so that \<open>offset_left\<close> is 1, not
  3, and the second page is cut as well.
\<close>

theorem iter_playlist_offset_drops_more:
  "iter_playlist_by_response example_externals example_self search_data [''All''] 2
     (server [Json (playlist_page [1, 2, 3] True), reloaded [3],
              Json (playlist_page [4, 5] False), reloaded [5]])
   = ([example_track 3, example_track 5], Inr (),
      \<lparr>script = [],
        sent = [Request ''POST'' ''https://vk.com/al_audio.php'' [] search_data,
                Request ''POST'' ''https://vk.com/al_audio.php'' [(''act'', JStr ''reload_audios'')]
                  [(''al'', JNum 1), (''audio_ids'', JStr ''-1_3_8a7f'')],
                Request ''POST'' ''https://vk.com/al_audio.php'' []
                  [(''al'', JNum 1), (''act'', JStr ''load_catalog_section''),
                   (''section_id'', JStr ''block''), (''start_from'', JStr ''next'')],
                Request ''POST'' ''https://vk.com/al_audio.php'' [(''act'', JStr ''reload_audios'')]
                  [(''al'', JNum 1), (''audio_ids'', JStr ''-1_5_8a7f'')]],
        auths = 0\<rparr>)
   \<and> and_then (item_of (playlist_data [1, 2, 3] True) ''list'') scrap_ids
       = Inr [example_id 1, example_id 2, example_id 3]
   \<and> and_then (item_of (playlist_data [4, 5] False) ''list'') scrap_ids
       = Inr [example_id 4, example_id 5]
   \<and> drop 2 ([example_id 1, example_id 2, example_id 3] @ [example_id 4, example_id 5])
       = [example_id 3, example_id 4, example_id 5]"
  by code_simp


section \<open>Properties of get\_audio\_by\_id\<close>

lemma scrap_tracks_no_ids: "scrap_tracks ext [] user_id http convert = ([], Inr (), http)"
  by (simp add: scrap_tracks_def ids_groups_def)

lemma get_audio_by_id_answered:
  assumes "send (Request ''GET'' (''https://m.vk.com/audio'' @ str owner_id @ ''_'' @ str audio_id)
                   [] []) http = (response, http1)"
    and "and_then (html_body response) scrap_ids_from_html = Inr ids"
  shows "get_audio_by_id ext self owner_id audio_id http
           = (case scrap_tracks ext ids (self_user_id self) http1 (self_convert_m3u8_links self) of
                (t # ts, r, http2) \<Rightarrow> Inr (Returned_track t)
              | ([], Inl e, http2) \<Rightarrow> Inl e
              | ([], Inr u, http2) \<Rightarrow> Inl StopIteration)"
proof -
  obtain ts r http2
    where run: "scrap_tracks ext ids (self_user_id self) http1 (self_convert_m3u8_links self)
                  = (ts, r, http2)"
    by (cases "scrap_tracks ext ids (self_user_id self) http1 (self_convert_m3u8_links self)")
  show ?thesis
  proof (cases ts)
    case Nil
    with assms run show ?thesis
      by (cases r) (simp_all add: get_audio_by_id_def)
  next
    case (Cons t ts')
    with assms run show ?thesis
      by (simp add: get_audio_by_id_def)
  qed
qed

lemma get_audio_by_id_not_empty_list:
  "get_audio_by_id ext self owner_id audio_id http \<noteq> Inr Returned_empty_list"
proof -
  obtain response http1
    where s: "send (Request ''GET'' (''https://m.vk.com/audio'' @ str owner_id @ ''_'' @ str audio_id)
                      [] []) http = (response, http1)"
    by (cases "send (Request ''GET'' (''https://m.vk.com/audio'' @ str owner_id @ ''_'' @ str audio_id)
                       [] []) http")
  show ?thesis
  proof (cases "and_then (html_body response) scrap_ids_from_html")
    case (Inl e)
    with s show ?thesis
      by (simp add: get_audio_by_id_def)
  next
    case (Inr ids)
    show ?thesis
      unfolding get_audio_by_id_answered [OF s Inr]
      by (auto split: prod.splits list.splits sum.splits)
  qed
qed

text \<open>
  C9. \<open>get_audio_by_id\<close> never returns the empty list. The generator object that
  \<open>scrap_tracks\<close> returns is true whatever it will yield, so that \<open>if track\<close> takes the
  first branch: the call returns the first track of the generator's run and raises what
  the run raises before a first track. When the run yields nothing and returns, as it does
  when no id was scraped from the page, and so when the page has no audio item at all,
  \<open>next\<close> raises \<open>StopIteration\<close>.
\<close>

theorem get_audio_by_id_never_empty_list:
  "get_audio_by_id ext self owner_id audio_id http \<noteq> Inr Returned_empty_list
   \<and> bool_of_generator (Generator (scrap_tracks ext ids user_id http1 convert_m3u8_links))
   \<and> (send (Request ''GET'' (''https://m.vk.com/audio'' @ str owner_id @ ''_'' @ str audio_id)
               [] []) http = (response, http1)
        \<and> and_then (html_body response) scrap_ids_from_html = Inr ids \<longrightarrow>
        get_audio_by_id ext self owner_id audio_id http
          = (case scrap_tracks ext ids (self_user_id self) http1 (self_convert_m3u8_links self) of
               (t # ts, r, http2) \<Rightarrow> Inr (Returned_track t)
             | ([], Inl e, http2) \<Rightarrow> Inl e
             | ([], Inr u, http2) \<Rightarrow> Inl StopIteration))
   \<and> (send (Request ''GET'' (''https://m.vk.com/audio'' @ str owner_id @ ''_'' @ str audio_id)
               [] []) http = (response, http1)
        \<and> and_then (html_body response) scrap_ids_from_html = Inr [] \<longrightarrow>
        get_audio_by_id ext self owner_id audio_id http = Inl StopIteration)
   \<and> (send (Request ''GET'' (''https://m.vk.com/audio'' @ str owner_id @ ''_'' @ str audio_id)
               [] []) http = (Html (Root []), http1) \<longrightarrow>
        get_audio_by_id ext self owner_id audio_id http = Inl StopIteration)"
proof (intro conjI impI; (elim conjE)?)
  show "get_audio_by_id ext self owner_id audio_id http \<noteq> Inr Returned_empty_list"
    by (rule get_audio_by_id_not_empty_list)
  show "bool_of_generator (Generator (scrap_tracks ext ids user_id http1 convert_m3u8_links))"
    by simp
next
  assume "send (Request ''GET'' (''https://m.vk.com/audio'' @ str owner_id @ ''_'' @ str audio_id)
                 [] []) http = (response, http1)"
    and "and_then (html_body response) scrap_ids_from_html = Inr ids"
  then show "get_audio_by_id ext self owner_id audio_id http
          = (case scrap_tracks ext ids (self_user_id self) http1 (self_convert_m3u8_links self) of
               (t # ts, r, http2) \<Rightarrow> Inr (Returned_track t)
             | ([], Inl e, http2) \<Rightarrow> Inl e
             | ([], Inr u, http2) \<Rightarrow> Inl StopIteration)"
    by (rule get_audio_by_id_answered)
next
  assume "send (Request ''GET'' (''https://m.vk.com/audio'' @ str owner_id @ ''_'' @ str audio_id)
                 [] []) http = (response, http1)"
    and "and_then (html_body response) scrap_ids_from_html = Inr []"
  from get_audio_by_id_answered [OF this]
  show "get_audio_by_id ext self owner_id audio_id http = Inl StopIteration"
    by (simp add: scrap_tracks_no_ids)
next
  assume "send (Request ''GET'' (''https://m.vk.com/audio'' @ str owner_id @ ''_'' @ str audio_id)
                 [] []) http = (Html (Root []), http1)"
  moreover have "and_then (html_body (Html (Root []))) scrap_ids_from_html = Inr []"
    by simp
  ultimately have "get_audio_by_id ext self owner_id audio_id http
          = (case scrap_tracks ext [] (self_user_id self) http1 (self_convert_m3u8_links self) of
               (t # ts, r, http2) \<Rightarrow> Inr (Returned_track t)
             | ([], Inl e, http2) \<Rightarrow> Inl e
             | ([], Inr u, http2) \<Rightarrow> Inl StopIteration)"
    by (rule get_audio_by_id_answered)
  then show "get_audio_by_id ext self owner_id audio_id http = Inl StopIteration"
    by (simp add: scrap_tracks_no_ids)
qed

theorem get_audio_by_id_never_empty_list_witness:
  "get_audio_by_id example_externals example_self (JNum (- 1)) (JNum 5)
     (server [audio_page [], reloaded [5]]) = Inl StopIteration
   \<and> get_audio_by_id example_externals example_self (JNum (- 1)) (JNum 5)
       (server [audio_page [5], reloaded [5]]) = Inr (Returned_track (example_track 5))
   \<and> get_audio_by_id example_externals example_self (JNum (- 1)) (JNum 5)
       (server [audio_page [5], reloaded []]) = Inl StopIteration
   \<and> scrap_ids_from_html (Root [AudioItem [''audio_item''] (Inr (example_data_audio 5))])
       = Inr [[JStr ''-1'', JStr ''5'', JStr ''8a7f'', JStr ''9b6e'']]"
proof -
  let ?get = "Request ''GET'' (''https://m.vk.com/audio'' @ str (JNum (- 1)) @ ''_'' @ str (JNum 5))
                [] []"
  have answer: "send ?get (server [audio_page [], reloaded [5]])
                  = (audio_page [], \<lparr>script = [reloaded [5]], sent = [?get], auths = 0\<rparr>)"
    by (simp add: send_def server_def)
  have none: "and_then (html_body (audio_page [])) scrap_ids_from_html = Inr []"
    by (simp add: audio_page_def)
  from get_audio_by_id_never_empty_list
    [THEN conjunct2, THEN conjunct2, THEN conjunct2, THEN conjunct1, THEN mp,
     OF conjI [OF answer none]]
  have stop: "get_audio_by_id example_externals example_self (JNum (- 1)) (JNum 5)
                (server [audio_page [], reloaded [5]]) = Inl StopIteration" .
  have track: "get_audio_by_id example_externals example_self (JNum (- 1)) (JNum 5)
                 (server [audio_page [5], reloaded [5]]) = Inr (Returned_track (example_track 5))"
    by code_simp
  have silent: "get_audio_by_id example_externals example_self (JNum (- 1)) (JNum 5)
                   (server [audio_page [5], reloaded []]) = Inl StopIteration"
    by code_simp
  have ids: "scrap_ids_from_html (Root [AudioItem [''audio_item''] (Inr (example_data_audio 5))])
               = Inr [[JStr ''-1'', JStr ''5'', JStr ''8a7f'', JStr ''9b6e'']]"
    by code_simp
  from stop track silent ids show ?thesis
    by (intro conjI)
qed

end
